theory Spec2Isabelle
  imports Complex_Main "HOL-Library.Word" "HOL-Library.AList" "HOL-Library.List_Lexorder"
begin

section \<open>Bytes, errors and content identifiers\<close>

type_synonym byte = "8 word"
type_synonym bytes = "byte list"
type_synonym path = string

text \<open>
  A content identifier of go-cid is a wrapped byte string; the zero value is the
  undefined cid. Only \<open>Defined\<close>, \<open>Hash\<close> and \<open>NewCidV1\<close> are used by the
  block store: \<open>Hash\<close> of the undefined cid is the empty multihash.
\<close>

datatype cid = CidUndef | CidV1 nat bytes

definition Raw :: nat where
  "Raw = 85"

fun Defined :: "cid \<Rightarrow> bool" where
  "Defined CidUndef = False"
| "Defined (CidV1 codec h) = True"

fun Hash :: "cid \<Rightarrow> bytes" where
  "Hash CidUndef = []"
| "Hash (CidV1 codec h) = h"

definition NewCidV1 :: "nat \<Rightarrow> bytes \<Rightarrow> cid" where
  "NewCidV1 codec h = CidV1 codec h"

record block =
  Cid :: cid
  RawData :: bytes

datatype error =
    ErrBlockstoreClosed
  | ErrNotFound cid
  | ErrKeyNotFound
  | ErrEmptyKey
  | ErrBadger
  | ErrNoRewrite
  | ErrJournal
  | ErrFilesystem
  | ErrContext
  | ErrCallback
  | ErrMoveInProgress
  | ErrFullGCOnce
  | ErrCorruptInput nat
  | ErrUndecodableKey bytes
  | ErrVarint
  | ErrMultihashTooShort
  | ErrMultihashLength
  | ErrUnsupportedLength nat
  | ErrUnsupportedPrefix bytes
  | ErrUnsupportedMultihash error
  | ErrMulti "error list"
  | Blocked
  | Panic

section \<open>The base32 codec of the keys (RawStdEncoding)\<close>

text \<open>
  The dependency go-base32 is not part of the repository. Its \<open>RawStdEncoding\<close> is
  RFC 4648 base32 without padding: the input is read as a bit string, most significant
  bit first, cut into groups of five bits (the last group filled with zero bits), and
  each group is written as one character of \<open>A..Z2..7\<close>. Decoding accepts both letter
  cases, stops with \<open>CorruptInputError\<close> at the first byte outside the alphabet, and
  turns every eight characters into five bytes; a shorter last quantum of 2, 4, 5 or 7
  characters gives 1, 2, 3 or 4 bytes, any other length gives none.
\<close>

fun bits_of_nat :: "nat \<Rightarrow> nat \<Rightarrow> bool list" where
  "bits_of_nat 0 n = []"
| "bits_of_nat (Suc w) n = bits_of_nat w (n div 2) @ [odd n]"

definition nat_of_bits :: "bool list \<Rightarrow> nat" where
  "nat_of_bits bs = foldl (\<lambda>a b. 2 * a + (if b then 1 else 0)) 0 bs"

definition bits_of_byte :: "byte \<Rightarrow> bool list" where
  "bits_of_byte b = bits_of_nat 8 (unat b)"

definition byte_of_bits :: "bool list \<Rightarrow> byte" where
  "byte_of_bits bs = of_nat (nat_of_bits bs)"

fun groups5 :: "bool list \<Rightarrow> bool list list" where
  "groups5 (a # b # c # d # e # rest) = [a, b, c, d, e] # groups5 rest"
| "groups5 [] = []"
| "groups5 xs = [xs @ replicate (5 - length xs) False]"

fun groups8 :: "bool list \<Rightarrow> bool list list" where
  "groups8 (a # b # c # d # e # f # g # h # rest) = [a, b, c, d, e, f, g, h] # groups8 rest"
| "groups8 xs = []"

definition enc_char :: "nat \<Rightarrow> byte" where
  "enc_char i = of_nat (if i < 26 then 65 + i else 24 + i)"

definition dec_char :: "byte \<Rightarrow> nat option" where
  "dec_char c =
     (let n = unat c in
      if 65 \<le> n \<and> n \<le> 90 then Some (n - 65)
      else if 97 \<le> n \<and> n \<le> 122 then Some (n - 97)
      else if 50 \<le> n \<and> n \<le> 55 then Some (n - 24)
      else None)"

definition EncodedLen :: "nat \<Rightarrow> nat" where
  "EncodedLen n = (n * 8 + 4) div 5"

definition DecodedLen :: "nat \<Rightarrow> nat" where
  "DecodedLen n = n * 5 div 8"

definition b32_encode :: "bytes \<Rightarrow> bytes" where
  "b32_encode src = map (\<lambda>g. enc_char (nat_of_bits g)) (groups5 (concat (map bits_of_byte src)))"

text \<open>The number of bytes the decoder writes for \<open>m\<close> characters.\<close>

definition decoded_bytes :: "nat \<Rightarrow> nat" where
  "decoded_bytes m =
     5 * (m div 8) +
     (let r = m mod 8 in
      if r = 2 then 1 else if r = 4 then 2 else if r = 5 then 3 else if r = 7 then 4 else 0)"

fun first_corrupt :: "nat \<Rightarrow> bytes \<Rightarrow> nat option" where
  "first_corrupt i [] = None"
| "first_corrupt i (c # cs) = (if dec_char c = None then Some i else first_corrupt (Suc i) cs)"

definition b32_decode :: "bytes \<Rightarrow> error + bytes" where
  "b32_decode src =
     (case first_corrupt 0 src of
        Some i \<Rightarrow> Inl (ErrCorruptInput i)
      | None \<Rightarrow>
          Inr (map byte_of_bits
                 (groups8 (take (8 * decoded_bytes (length src))
                             (concat (map (\<lambda>c. bits_of_nat 5 (the (dec_char c))) src))))))"

section \<open>Digest policy\<close>

text \<open>
  \<open>FromUvarint\<close> of go-varint and \<open>Decode\<close> of go-multihash (dependencies): a
  multihash is a minimal unsigned varint code, a minimal unsigned varint length and
  exactly that many digest bytes. At most nine bytes of seven bits are read, so the
  64-bit accumulator of the source never wraps and a natural number holds it.
\<close>

fun FromUvarint_loop :: "nat \<Rightarrow> nat \<Rightarrow> nat \<Rightarrow> bytes \<Rightarrow> error + (nat \<times> nat)" where
  "FromUvarint_loop i x s [] = Inl ErrVarint"
| "FromUvarint_loop i x s (b # bs) =
     (if (i = 8 \<and> 128 \<le> unat b) \<or> 9 \<le> i then Inl ErrVarint
      else if unat b < 128 then
        (if unat b = 0 \<and> 0 < s then Inl ErrVarint else Inr (x + unat b * 2 ^ s, i + 1))
      else FromUvarint_loop (i + 1) (x + (unat b mod 128) * 2 ^ s) (s + 7) bs)"

definition FromUvarint :: "bytes \<Rightarrow> error + (nat \<times> nat)" where
  "FromUvarint buf = FromUvarint_loop 0 0 0 buf"

record DecodedMultihash =
  Code :: nat
  Length :: nat
  Digest :: bytes

definition Decode :: "bytes \<Rightarrow> error + DecodedMultihash" where
  "Decode buf =
     (if length buf < 2 then Inl ErrMultihashTooShort
      else (case FromUvarint buf of
        Inl e \<Rightarrow> Inl e
      | Inr (code, n1) \<Rightarrow>
          (case FromUvarint (drop n1 buf) of
             Inl e \<Rightarrow> Inl e
           | Inr (len, n2) \<Rightarrow>
               (if length (drop (n1 + n2) buf) \<noteq> len then Inl ErrMultihashLength
                else Inr \<lparr>Code = code, Length = len, Digest = drop (n1 + n2) buf\<rparr>))))"

record supportedMultihash =
  cidMaker :: "nat \<times> nat"
  journalShortCode :: byte

definition supportedHashLen :: nat where
  "supportedHashLen = 256 div 8"

definition mhJournalRecordLen :: nat where
  "mhJournalRecordLen = 1 + supportedHashLen"

definition Blake2b256 :: nat where
  "Blake2b256 = 45600"

definition Sha2_256 :: nat where
  "Sha2_256 = 18"

definition supportedMultihashes :: "bytes \<Rightarrow> supportedMultihash option" where
  "supportedMultihashes p =
     (if p = [0xA0, 0xE4, 0x02, 0x20] then
        Some \<lparr>cidMaker = (Raw, Blake2b256), journalShortCode = 1\<rparr>
      else if p = [0x12, 0x20] then
        Some \<lparr>cidMaker = (Raw, Sha2_256), journalShortCode = 0\<rparr>
      else None)"

definition isMultihashSupported :: "bytes \<Rightarrow> error + supportedMultihash" where
  "isMultihashSupported mh =
     (case Decode mh of
        Inl e \<Rightarrow> Inl e
      | Inr mhDec \<Rightarrow>
          (if Length mhDec \<noteq> supportedHashLen then Inl (ErrUnsupportedLength (Length mhDec * 8))
           else (case supportedMultihashes (take (length mh - supportedHashLen) mh) of
             None \<Rightarrow> Inl (ErrUnsupportedPrefix (take (length mh - supportedHashLen) mh))
           | Some smh \<Rightarrow> Inr smh)))"


section \<open>The key-value engine, the journal and the store\<close>

text \<open>
  The embedded engine is a dependency. A database handle is modelled by its directory
  and its entries, an association list with one pair per key; iterators yield the keys
  in byte order. Every call into the engine or the operating system that can fail takes
  a flag saying whether it fails in this run, so each error return of the source is a
  branch of the model.
\<close>

record badger_db =
  db_dir :: path
  kv :: "(bytes \<times> bytes) list"

record journal =
  j_dir :: path
  j_data :: bytes

datatype wb_op = WSet bytes bytes | WDelete bytes

fun apply_entry :: "wb_op \<Rightarrow> (bytes \<times> bytes) list \<Rightarrow> (bytes \<times> bytes) list" where
  "apply_entry (WSet k v) al = AList.update k v al"
| "apply_entry (WDelete k) al = AList.delete k al"

definition apply_batch :: "wb_op list \<Rightarrow> (bytes \<times> bytes) list \<Rightarrow> (bytes \<times> bytes) list" where
  "apply_batch ops al = fold apply_entry ops al"

text \<open>
  What the engine and the journal file answer during one write batch: whether \<open>Set\<close> or
  \<open>Delete\<close> of the i-th entry fails, whether \<open>Flush\<close> fails, how many pending entries
  had already reached the store when the batch fails (the engine commits a batch in
  several transactions when it is large), and whether the journal \<open>Write\<close> fails after
  some bytes.
\<close>

record wb_io =
  set_err :: "nat \<Rightarrow> bool"
  flush_err :: bool
  committed :: nat
  jwrite_err :: "nat option"

datatype bsState = stateOpen | stateClosing | stateClosed

datatype bsMoveState = moveStateNone | moveStateMoving | moveStateCleanup | moveStateLock

text \<open>
  The fields of \<open>Blockstore\<close>, followed by the process state its methods touch: the
  number of buffers taken from the global buffer pool (\<open>KeyPool\<close>) and not yet
  returned, the directories and symbolic links of the file system, and the directories
  and journal files that have an open handle.
\<close>

record world =
  state :: bsState
  viewers :: int
  moveState :: bsMoveState
  rlock :: int
  db :: badger_db
  mhJournal :: "journal option"
  dbNext :: "badger_db option"
  mhJournalNext :: "journal option"
  opts_Dir :: path
  opts_ReadOnly :: bool
  prefixing :: bool
  prefix :: bytes
  prefixLen :: nat
  pool_out :: int
  fs_dirs :: "path list"
  fs_links :: "(path \<times> path) list"
  open_dbs :: "path list"
  open_journals :: "path list"

subsection \<open>Lifecycle gate and move lock\<close>

definition access :: "world \<Rightarrow> error + world" where
  "access w = (if state w \<noteq> stateOpen then Inl ErrBlockstoreClosed
               else Inr (w\<lparr>viewers := viewers w + 1\<rparr>))"

definition viewers_Done :: "world \<Rightarrow> world" where
  "viewers_Done w = w\<lparr>viewers := viewers w - 1\<rparr>"

definition isOpen :: "world \<Rightarrow> bool" where
  "isOpen w = (state w = stateOpen)"

text \<open>
  The waits on \<open>moveCond\<close> end only when another thread changes the state. In this
  sequential model a call that would wait does not return: \<open>None\<close>.
\<close>

definition lockDB :: "world \<Rightarrow> world option" where
  "lockDB w = (if rlock w = 0 \<and> moveState w = moveStateLock then None
               else Some (w\<lparr>rlock := rlock w + 1\<rparr>))"

definition unlockDB :: "world \<Rightarrow> world" where
  "unlockDB w = w\<lparr>rlock := rlock w - 1\<rparr>"

definition lockMove :: "world \<Rightarrow> world option" where
  "lockMove w = (if 0 < rlock w then None else Some (w\<lparr>moveState := moveStateLock\<rparr>))"

definition unlockMove :: "bsMoveState \<Rightarrow> world \<Rightarrow> world" where
  "unlockMove st w = w\<lparr>moveState := st\<rparr>"

text \<open>
  The prologue and epilogue shared by the operations: \<open>access\<close>, deferred
  \<open>viewers.Done\<close>, \<open>lockDB\<close>, deferred \<open>unlockDB\<close>.
\<close>

definition guarded :: "world \<Rightarrow> (world \<Rightarrow> (error + 'a) \<times> world) \<Rightarrow> (error + 'a) \<times> world" where
  "guarded w body =
     (case access w of
        Inl e \<Rightarrow> (Inl e, w)
      | Inr w1 \<Rightarrow>
          (case lockDB w1 of
             None \<Rightarrow> (Inl Blocked, w1)
           | Some w2 \<Rightarrow> (case body w2 of (r, w3) \<Rightarrow> (r, viewers_Done (unlockDB w3)))))"

subsection \<open>Key codec\<close>

definition pool_Get :: "world \<Rightarrow> world" where
  "pool_Get w = w\<lparr>pool_out := pool_out w + 1\<rparr>"

definition pool_Put :: "world \<Rightarrow> world" where
  "pool_Put w = w\<lparr>pool_out := pool_out w - 1\<rparr>"

text \<open>Go's \<open>copy(dst, src)\<close>, and \<open>Encode(dst[off:], h)\<close> writing into a buffer.\<close>

definition copy_bytes :: "bytes \<Rightarrow> bytes \<Rightarrow> bytes" where
  "copy_bytes dst src = take (length dst) src @ drop (length src) dst"

definition encode_at :: "nat \<Rightarrow> bytes \<Rightarrow> bytes \<Rightarrow> bytes" where
  "encode_at off dst h =
     take off dst @ b32_encode h @ drop (off + EncodedLen (length h)) dst"

definition PooledStorageKey :: "world \<Rightarrow> cid \<Rightarrow> (bytes \<times> bool) \<times> world" where
  "PooledStorageKey w c =
     (let h = Hash c; size = EncodedLen (length h) in
      if \<not> prefixing w then
        ((encode_at 0 (replicate size 0) h, True), pool_Get w)
      else
        (let k = replicate (size + prefixLen w) 0 in
         ((encode_at (prefixLen w) (copy_bytes k (prefix w)) h, True), pool_Get w)))"

text \<open>
  \<open>StorageKey\<close> writes into the caller's slice, given here by its contents up to its
  capacity and its length.
\<close>

definition StorageKey :: "world \<Rightarrow> bytes \<times> nat \<Rightarrow> cid \<Rightarrow> bytes" where
  "StorageKey w dst c =
     (let h = Hash c;
          reqsize = EncodedLen (length h) + prefixLen w;
          buf = (if length (fst dst) < reqsize then replicate reqsize 0 else fst dst);
          out = (if prefixing w then encode_at (prefixLen w) (copy_bytes buf (prefix w)) h
                 else encode_at 0 buf h)
      in take reqsize out)"

subsection \<open>Reads\<close>

definition txn_Get :: "bool \<Rightarrow> badger_db \<Rightarrow> bytes \<Rightarrow> error + bytes" where
  "txn_Get fail d k =
     (if k = [] then Inl ErrEmptyKey
      else if fail then Inl ErrBadger
      else (case map_of (kv d) k of None \<Rightarrow> Inl ErrKeyNotFound | Some v \<Rightarrow> Inr v))"

definition badgerGet :: "bool \<Rightarrow> badger_db \<Rightarrow> bytes \<Rightarrow> error + bytes option" where
  "badgerGet fail d k =
     (case txn_Get fail d k of
        Inr v \<Rightarrow> Inr (Some v)
      | Inl e \<Rightarrow> (if e = ErrKeyNotFound then Inr None else Inl e))"

record rd_io =
  get_err :: bool
  item_err :: bool

definition with_key :: "world \<Rightarrow> cid \<Rightarrow> (bytes \<Rightarrow> error + 'a) \<Rightarrow> (error + 'a) \<times> world" where
  "with_key w c f =
     (case PooledStorageKey w c of
        ((k, pooled), w1) \<Rightarrow> (f k, if pooled then pool_Put w1 else w1))"

definition View :: "rd_io \<Rightarrow> world \<Rightarrow> cid \<Rightarrow> (bytes \<Rightarrow> error option) \<Rightarrow> (error + unit) \<times> world" where
  "View io w c fn =
     guarded w (\<lambda>w2. with_key w2 c (\<lambda>k.
       (case badgerGet (get_err io) (db w2) k of
          Inl e \<Rightarrow> Inl e
        | Inr None \<Rightarrow> Inl (ErrNotFound c)
        | Inr (Some v) \<Rightarrow>
            (if item_err io then Inl ErrBadger
             else (case fn v of Some e \<Rightarrow> Inl e | None \<Rightarrow> Inr ())))))"

definition Has :: "rd_io \<Rightarrow> world \<Rightarrow> cid \<Rightarrow> (error + bool) \<times> world" where
  "Has io w c =
     guarded w (\<lambda>w2. with_key w2 c (\<lambda>k.
       (case badgerGet (get_err io) (db w2) k of
          Inl e \<Rightarrow> Inl e
        | Inr None \<Rightarrow> Inr False
        | Inr (Some v) \<Rightarrow> Inr True)))"

definition Get :: "rd_io \<Rightarrow> world \<Rightarrow> cid \<Rightarrow> (error + block) \<times> world" where
  "Get io w c =
     (if \<not> Defined c then (Inl (ErrNotFound c), w)
      else guarded w (\<lambda>w2. with_key w2 c (\<lambda>k.
        (case badgerGet (get_err io) (db w2) k of
           Inl e \<Rightarrow> Inl e
         | Inr None \<Rightarrow> Inl (ErrNotFound c)
         | Inr (Some v) \<Rightarrow>
             (if item_err io then Inl ErrBadger else Inr \<lparr>Cid = c, RawData = v\<rparr>)))))"

definition GetSize :: "rd_io \<Rightarrow> world \<Rightarrow> cid \<Rightarrow> (error + nat) \<times> world" where
  "GetSize io w c =
     guarded w (\<lambda>w2. with_key w2 c (\<lambda>k.
       (case badgerGet (get_err io) (db w2) k of
          Inl e \<Rightarrow> Inl e
        | Inr None \<Rightarrow> Inl (ErrNotFound c)
        | Inr (Some v) \<Rightarrow> Inr (length v))))"

subsection \<open>Writes\<close>

text \<open>The loop of \<open>PutMany\<close> that computes the keys and collects the pooled ones.\<close>

fun keys_loop :: "world \<Rightarrow> block list \<Rightarrow> bytes list \<Rightarrow> bytes list \<times> bytes list \<times> world" where
  "keys_loop w [] toReturn = ([], toReturn, w)"
| "keys_loop w (blk # rest) toReturn =
     (case PooledStorageKey w (Cid blk) of
        ((k, pooled), w1) \<Rightarrow>
          (case keys_loop w1 rest (if pooled then toReturn @ [k] else toReturn) of
             (ks, toReturn', w2) \<Rightarrow> (k # ks, toReturn', w2)))"

text \<open>
  The read-only transaction of \<open>PutMany\<close>: a key that is present becomes \<open>nil\<close>
  (\<open>None\<close>); for an absent key the multihash is classified and its journal record is
  appended. The result is the keys after the loop and the journal buffer.
\<close>

fun view_loop :: "(nat \<Rightarrow> bool) \<Rightarrow> badger_db \<Rightarrow> nat \<Rightarrow> block list \<Rightarrow> bytes list
                  \<Rightarrow> error + (bytes option list \<times> bytes)" where
  "view_loop gerr d i (blk # blks) (k # ks) =
     (case badgerGet (gerr i) d k of
        Inl e \<Rightarrow> Inl e
      | Inr (Some v) \<Rightarrow>
          (case view_loop gerr d (Suc i) blks ks of
             Inl e \<Rightarrow> Inl e
           | Inr (keys, jrnl) \<Rightarrow> Inr (None # keys, jrnl))
      | Inr None \<Rightarrow>
          (let mh = Hash (Cid blk) in
           case isMultihashSupported mh of
             Inl e \<Rightarrow> Inl (ErrUnsupportedMultihash e)
           | Inr smh \<Rightarrow>
               (case view_loop gerr d (Suc i) blks ks of
                  Inl e \<Rightarrow> Inl e
                | Inr (keys, jrnl) \<Rightarrow>
                    Inr (Some k # keys,
                         journalShortCode smh # drop (length mh - supportedHashLen) mh @ jrnl))))"
| "view_loop gerr d i blks ks = Inr ([], [])"

text \<open>The loop of the \<open>put\<close> closure: the entries set on the write batch.\<close>

fun set_loop :: "(nat \<Rightarrow> bool) \<Rightarrow> nat \<Rightarrow> block list \<Rightarrow> bytes option list \<Rightarrow> wb_op list
                 \<Rightarrow> error option \<times> wb_op list" where
  "set_loop serr i (blk # blks) (k # ks) batch =
     (case k of
        None \<Rightarrow> set_loop serr (Suc i) blks ks batch
      | Some key \<Rightarrow>
          (if key = [] then (Some ErrEmptyKey, batch)
           else if serr i then (Some ErrBadger, batch)
           else set_loop serr (Suc i) blks ks (batch @ [WSet key (RawData blk)])))"
| "set_loop serr i blks ks batch = (None, batch)"

definition batch_abort :: "wb_io \<Rightarrow> wb_op list \<Rightarrow> badger_db \<Rightarrow> badger_db" where
  "batch_abort io batch d = d\<lparr>kv := apply_batch (take (committed io) batch) (kv d)\<rparr>"

definition batch_Flush :: "wb_op list \<Rightarrow> badger_db \<Rightarrow> badger_db" where
  "batch_Flush batch d = d\<lparr>kv := apply_batch batch (kv d)\<rparr>"

definition journal_Write :: "nat option \<Rightarrow> journal \<Rightarrow> bytes \<Rightarrow> error option \<times> journal" where
  "journal_Write fail j buf =
     (case fail of
        None \<Rightarrow> (None, j\<lparr>j_data := j_data j @ buf\<rparr>)
      | Some n \<Rightarrow> (Some ErrJournal, j\<lparr>j_data := j_data j @ take n buf\<rparr>))"

definition put :: "wb_io \<Rightarrow> block list \<Rightarrow> bytes option list \<Rightarrow> bytes \<Rightarrow> badger_db \<Rightarrow> journal option
                   \<Rightarrow> error option \<times> badger_db \<times> journal option" where
  "put io blocks keys jrnl d mhj =
     (case set_loop (set_err io) 0 blocks keys [] of
        (Some e, batch) \<Rightarrow> (Some e, batch_abort io batch d, mhj)
      | (None, batch) \<Rightarrow>
          (if flush_err io then (Some ErrBadger, batch_abort io batch d, mhj)
           else (case mhj of
                   None \<Rightarrow> (Some Panic, batch_Flush batch d, None)
                 | Some j \<Rightarrow>
                     (case journal_Write (jwrite_err io) j jrnl of
                        (e, j') \<Rightarrow> (e, batch_Flush batch d, Some j')))))"

record put_io =
  view_err :: "nat \<Rightarrow> bool"
  wb :: wb_io
  wb_next :: wb_io

definition put_both :: "put_io \<Rightarrow> block list \<Rightarrow> bytes option list \<Rightarrow> bytes \<Rightarrow> world
                        \<Rightarrow> (error + unit) \<times> world" where
  "put_both io blocks keys jrnl w =
     (case put (wb io) blocks keys jrnl (db w) (mhJournal w) of
        (e1, d1, j1) \<Rightarrow>
          (let w1 = w\<lparr>db := d1, mhJournal := j1\<rparr> in
           case e1 of
             Some e \<Rightarrow> (Inl e, w1)
           | None \<Rightarrow>
               (case dbNext w1 of
                  None \<Rightarrow> (Inr (), w1)
                | Some dn \<Rightarrow>
                    (case put (wb_next io) blocks keys jrnl dn (mhJournalNext w1) of
                       (e2, d2, j2) \<Rightarrow>
                         ((case e2 of Some e \<Rightarrow> Inl e | None \<Rightarrow> Inr ()),
                          w1\<lparr>dbNext := Some d2, mhJournalNext := j2\<rparr>)))))"

text \<open>
  The deferred function that returns the collected keys to the pool is registered only
  when \<open>prefixing\<close> is set.
\<close>

definition return_keys :: "bytes list \<Rightarrow> world \<Rightarrow> world" where
  "return_keys toReturn w =
     (if prefixing w then w\<lparr>pool_out := pool_out w - int (length toReturn)\<rparr> else w)"

definition PutMany :: "put_io \<Rightarrow> world \<Rightarrow> block list \<Rightarrow> (error + unit) \<times> world" where
  "PutMany io w blocks =
     guarded w (\<lambda>w2.
       (case keys_loop w2 blocks [] of
          (keys, toReturn, w3) \<Rightarrow>
            (case (case view_loop (view_err io) (db w3) 0 blocks keys of
                     Inl e \<Rightarrow> (Inl e, pool_Get w3)
                   | Inr (keys', jrnl) \<Rightarrow> put_both io blocks keys' jrnl (pool_Get w3)) of
               (r, w4) \<Rightarrow> (r, return_keys toReturn (pool_Put w4)))))"

definition Put :: "put_io \<Rightarrow> world \<Rightarrow> block \<Rightarrow> (error + unit) \<times> world" where
  "Put io w blk = PutMany io w [blk]"

fun delete_loop :: "(nat \<Rightarrow> bool) \<Rightarrow> world \<Rightarrow> nat \<Rightarrow> cid list \<Rightarrow> bytes list \<Rightarrow> wb_op list
                    \<Rightarrow> error option \<times> bytes list \<times> wb_op list \<times> world" where
  "delete_loop serr w i [] toReturn batch = (None, toReturn, batch, w)"
| "delete_loop serr w i (c # cs) toReturn batch =
     (case PooledStorageKey w c of
        ((k, pooled), w1) \<Rightarrow>
          (let toReturn' = (if pooled then toReturn @ [k] else toReturn) in
           if k = [] then (Some ErrEmptyKey, toReturn', batch, w1)
           else if serr i then (Some ErrBadger, toReturn', batch, w1)
           else delete_loop serr w1 (Suc i) cs toReturn' (batch @ [WDelete k])))"

definition DeleteMany :: "wb_io \<Rightarrow> world \<Rightarrow> cid list \<Rightarrow> (error + unit) \<times> world" where
  "DeleteMany io w cids =
     guarded w (\<lambda>w2.
       (case delete_loop (set_err io) w2 0 cids [] [] of
          (Some e, toReturn, batch, w3) \<Rightarrow>
            (Inl e, return_keys toReturn (w3\<lparr>db := batch_abort io batch (db w3)\<rparr>))
        | (None, toReturn, batch, w3) \<Rightarrow>
            (if flush_err io then
               (Inl ErrBadger, return_keys toReturn (w3\<lparr>db := batch_abort io batch (db w3)\<rparr>))
             else (Inr (), return_keys toReturn (w3\<lparr>db := batch_Flush batch (db w3)\<rparr>)))))"

definition DeleteBlock :: "wb_io \<Rightarrow> world \<Rightarrow> cid \<Rightarrow> (error + unit) \<times> world" where
  "DeleteBlock io w c = DeleteMany io w [c]"

subsection \<open>Iteration\<close>

fun has_prefix :: "bytes \<Rightarrow> bytes \<Rightarrow> bool" where
  "has_prefix [] k = True"
| "has_prefix (p # ps) [] = False"
| "has_prefix (p # ps) (c # cs) = (p = c \<and> has_prefix ps cs)"

text \<open>The keys an iterator of the store yields: in byte order, under the prefix option.\<close>

definition iter_keys :: "world \<Rightarrow> bytes list" where
  "iter_keys w =
     filter (\<lambda>k. \<not> prefixing w \<or> has_prefix (prefix w) k) (sort (map fst (kv (db w))))"

definition strip_prefix :: "world \<Rightarrow> bytes \<Rightarrow> bytes" where
  "strip_prefix w k = (if prefixing w then drop (prefixLen w) k else k)"

text \<open>
  What other threads do while an iteration runs: whether the context is done and whether
  the store has left \<open>stateOpen\<close> when the i-th key is reached.
\<close>

record iter_io =
  ctx_done :: "nat \<Rightarrow> bool"
  closed_at :: "nat \<Rightarrow> bool"

text \<open>
  The producer of \<open>AllKeysChan\<close>: the cids sent on the channel and the keys of the
  warnings logged.
\<close>

fun AllKeysChan_loop :: "iter_io \<Rightarrow> world \<Rightarrow> nat \<Rightarrow> bytes list \<Rightarrow> cid list \<times> bytes list" where
  "AllKeysChan_loop io w i [] = ([], [])"
| "AllKeysChan_loop io w i (k0 # ks) =
     (if ctx_done io i then ([], [])
      else if closed_at io i \<or> \<not> isOpen w then ([], [])
      else (let k = strip_prefix w k0 in
            case b32_decode k of
              Inr mh \<Rightarrow>
                (case AllKeysChan_loop io w (Suc i) ks of
                   (sent, warned) \<Rightarrow> (NewCidV1 Raw mh # sent, warned))
            | Inl e \<Rightarrow>
                (case AllKeysChan_loop io w (Suc i) ks of
                   (sent, warned) \<Rightarrow> (sent, k # warned))))"

definition AllKeysChan :: "iter_io \<Rightarrow> world \<Rightarrow> (error + cid list \<times> bytes list) \<times> world" where
  "AllKeysChan io w =
     (case access w of
        Inl e \<Rightarrow> (Inl e, w)
      | Inr w1 \<Rightarrow>
          (case lockDB w1 of
             None \<Rightarrow> (Inl Blocked, w1)
           | Some w2 \<Rightarrow>
               (let w3 = unlockDB w2 in
                (Inr (AllKeysChan_loop io w3 0 (iter_keys w3)), viewers_Done w3))))"

text \<open>
  The loop of \<open>ForEachKey\<close>: the result and the cids the visitor was called with.
\<close>

fun ForEachKey_loop :: "iter_io \<Rightarrow> (cid \<Rightarrow> error option) \<Rightarrow> world \<Rightarrow> nat \<Rightarrow> bytes list
                        \<Rightarrow> (error + unit) \<times> cid list" where
  "ForEachKey_loop io f w i [] = (Inr (), [])"
| "ForEachKey_loop io f w i (k0 # ks) =
     (if closed_at io i \<or> \<not> isOpen w then (Inl ErrBlockstoreClosed, [])
      else (case b32_decode (strip_prefix w k0) of
              Inl e \<Rightarrow> (Inl e, [])
            | Inr mh \<Rightarrow>
                (let c = NewCidV1 Raw mh in
                 case f c of
                   Some e \<Rightarrow> (Inl e, [c])
                 | None \<Rightarrow>
                     (case ForEachKey_loop io f w (Suc i) ks of
                        (r, visited) \<Rightarrow> (r, c # visited)))))"

definition ForEachKey :: "iter_io \<Rightarrow> world \<Rightarrow> (cid \<Rightarrow> error option)
                          \<Rightarrow> ((error + unit) \<times> cid list) \<times> world" where
  "ForEachKey io w f =
     (case access w of
        Inl e \<Rightarrow> ((Inl e, []), w)
      | Inr w1 \<Rightarrow>
          (case lockDB w1 of
             None \<Rightarrow> ((Inl Blocked, []), w1)
           | Some w2 \<Rightarrow>
               (ForEachKey_loop io f w2 0 (iter_keys w2), viewers_Done (unlockDB w2))))"

subsection \<open>Flush and Close\<close>

definition Combine :: "error option list \<Rightarrow> error option" where
  "Combine errs =
     (case List.map_filter id errs of
        [] \<Rightarrow> None
      | [e] \<Rightarrow> Some e
      | es \<Rightarrow> Some (ErrMulti es))"

record flush_io =
  sync_db :: "error option"
  sync_journal :: "error option"
  sync_dbNext :: "error option"
  sync_journalNext :: "error option"

definition Flush :: "flush_io \<Rightarrow> world \<Rightarrow> (error + unit) \<times> world" where
  "Flush io w =
     guarded w (\<lambda>w2.
       (if dbNext w2 \<noteq> None \<and> mhJournalNext w2 = None then (Inl Panic, w2)
        else (case Combine
                     ((if dbNext w2 \<noteq> None then [sync_dbNext io, sync_journalNext io] else []) @
                      (if mhJournal w2 \<noteq> None then [sync_journal io] else []) @
                      [sync_db io]) of
                None \<Rightarrow> (Inr (), w2)
              | Some e \<Rightarrow> (Inl e, w2))))"

record close_io =
  close_db :: "error option"
  close_journal :: "error option"

definition Close :: "close_io \<Rightarrow> world \<Rightarrow> error option \<times> world" where
  "Close io w =
     (if state w \<noteq> stateOpen then (None, w)
      else (let w1 = w\<lparr>state := stateClosing\<rparr> in
            if viewers w1 \<noteq> 0 then (Some Blocked, w1)
            else (let w2 = w1\<lparr>open_dbs := remove1 (db_dir (db w1)) (open_dbs w1)\<rparr>;
                      err = close_db io
                  in case mhJournal w2 of
                       None \<Rightarrow> (err, w2\<lparr>state := stateClosed\<rparr>)
                     | Some j \<Rightarrow>
                         ((if err = None then close_journal io else err),
                          w2\<lparr>open_journals := remove1 (j_dir j) (open_journals w2),
                             state := stateClosed\<rparr>))))"

section \<open>Opening a store\<close>

text \<open>
  The operating system as the store sees it. Paths are cleaned path strings.
  \<open>EvalSymlinks\<close> follows a link of \<open>fs_links\<close> to its target (a relative target is
  taken in the link's directory) and fails for a path that is neither a link nor a
  directory.
\<close>

definition path_Base :: "path \<Rightarrow> path" where
  "path_Base p = rev (takeWhile (\<lambda>c. c \<noteq> CHR ''/'') (rev p))"

definition path_Dir :: "path \<Rightarrow> path" where
  "path_Dir p =
     (let r = dropWhile (\<lambda>c. c \<noteq> CHR ''/'') (rev p) in
      if r = [] then ''.'' else if r = ''/'' then ''/'' else rev (tl r))"

definition path_Join :: "path \<Rightarrow> path \<Rightarrow> path" where
  "path_Join d n = (if d = ''/'' then d @ n else d @ ''/'' @ n)"

definition EvalSymlinks :: "bool \<Rightarrow> world \<Rightarrow> path \<Rightarrow> error + path" where
  "EvalSymlinks fail w p =
     (if fail then Inl ErrFilesystem
      else (case map_of (fs_links w) p of
              Some t \<Rightarrow> Inr (if t \<noteq> [] \<and> hd t = CHR ''/'' then t else path_Join (path_Dir p) t)
            | None \<Rightarrow> (if p \<in> set (fs_dirs w) then Inr p else Inl ErrFilesystem)))"

text \<open>
  \<open>badger.Open\<close> creates the directory when it is missing and holds a handle on it; the
  entries already on disk are given by the caller of the model.
\<close>

definition badger_Open :: "bool \<Rightarrow> (bytes \<times> bytes) list \<Rightarrow> path \<Rightarrow> world \<Rightarrow> error + badger_db \<times> world" where
  "badger_Open fail on_disk p w =
     (if fail then Inl ErrBadger
      else Inr (\<lparr>db_dir = p, kv = (if p \<in> set (fs_dirs w) then on_disk else [])\<rparr>,
                w\<lparr>fs_dirs := (if p \<in> set (fs_dirs w) then fs_dirs w else p # fs_dirs w),
                  open_dbs := p # open_dbs w\<rparr>))"

text \<open>
  \<open>openJournal\<close>: \<open>OpenFile\<close> in append mode, then the optional \<open>fadvWriter\<close> hook
  (\<open>None\<close> when the hook is nil, otherwise whether it fails). When the hook fails the
  file stays open.
\<close>

record journal_io =
  openfile_err :: bool
  fadvWriter :: "bool option"

definition openJournal :: "journal_io \<Rightarrow> path \<Rightarrow> world \<Rightarrow> (error + journal) \<times> world" where
  "openJournal io dir w =
     (if openfile_err io then (Inl ErrFilesystem, w)
      else (let w1 = w\<lparr>open_journals := dir # open_journals w\<rparr> in
            if fadvWriter io = Some True then (Inl ErrFilesystem, w1)
            else (Inr \<lparr>j_dir = dir, j_data = []\<rparr>, w1)))"

record Options =
  Dir :: path
  ReadOnly :: bool
  Prefix :: bytes

record open_io =
  open_db_err :: bool
  open_on_disk :: "(bytes \<times> bytes) list"
  open_journal_io :: journal_io

text \<open>
  \<open>Open\<close>, run in a process with no other store: \<open>dirs\<close> and \<open>links\<close> are the
  directories and links of the file system.
\<close>

definition Open :: "open_io \<Rightarrow> path list \<Rightarrow> (path \<times> path) list \<Rightarrow> Options \<Rightarrow> error + world" where
  "Open io dirs links opts =
     (let w0 = \<lparr>state = stateOpen, viewers = 0, moveState = moveStateNone, rlock = 0,
                db = \<lparr>db_dir = Dir opts, kv = []\<rparr>, mhJournal = None,
                dbNext = None, mhJournalNext = None,
                opts_Dir = Dir opts, opts_ReadOnly = ReadOnly opts,
                prefixing = False, prefix = [], prefixLen = 0,
                pool_out = 0, fs_dirs = dirs, fs_links = links,
                open_dbs = [], open_journals = []\<rparr>
      in case badger_Open (open_db_err io) (open_on_disk io) (Dir opts) w0 of
           Inl e \<Rightarrow> Inl e
         | Inr (d, w1) \<Rightarrow>
             (let w2 = w1\<lparr>db := d\<rparr>;
                  w3 = (if Prefix opts \<noteq> []
                        then w2\<lparr>prefixing := True, prefix := Prefix opts,
                                prefixLen := length (Prefix opts)\<rparr>
                        else w2)
              in if \<not> ReadOnly opts then
                   (case openJournal (open_journal_io io) (Dir opts) w3 of
                      (Inl e, w4) \<Rightarrow> Inl e
                    | (Inr j, w4) \<Rightarrow> Inr (w4\<lparr>mhJournal := Some j\<rparr>))
                 else Inr w3))"

section \<open>Garbage collection\<close>

subsection \<open>Copying a store\<close>

definition between :: "int \<Rightarrow> int \<Rightarrow> int \<Rightarrow> int" where
  "between lo hi val =
     (let val1 = (if hi < val then hi else val) in if val1 < lo then lo else val1)"

fun split_groups :: "nat list \<Rightarrow> 'a list \<Rightarrow> 'a list list" where
  "split_groups ns [] = []"
| "split_groups [] xs = [xs]"
| "split_groups (n # ns) xs =
     (if n = 0 then split_groups ns xs else take n xs # split_groups ns (drop n xs))"

text \<open>
  What happens while \<open>doCopy\<close> streams the store: how the engine groups the entries,
  whether the context is done when a group arrives, whether \<open>Set\<close> fails for a key,
  whether the journal \<open>Write\<close> of a group fails, whether the stream itself ends with an
  error after the last group (the context was cancelled, or the engine failed), whether
  the final \<open>Flush\<close> fails, and how many pending entries had been committed when the
  batch is cancelled.
\<close>

record copy_io =
  group_sizes :: "nat list"
  copy_ctx_err :: "nat \<Rightarrow> bool"
  copy_set_err :: "bytes \<Rightarrow> bool"
  copy_jwrite_err :: "nat \<Rightarrow> nat option"
  copy_stream_err :: "error option"
  copy_flush_err :: bool
  copy_committed :: nat

text \<open>
  The buffer the keys are decoded into holds \<open>MaxLenUvarint63 + supportedHashLen\<close> bytes.
  The stream is not restricted to the prefix of the store: slicing a key shorter than
  \<open>prefixLen\<close> panics, and so does a decoded multihash that does not fit the buffer.
  The journal slab and the buffer are taken from the pool and returned in every group.
\<close>

definition mhBuf_len :: nat where
  "mhBuf_len = 9 + supportedHashLen"

fun copy_group :: "nat \<Rightarrow> (bytes \<Rightarrow> bool) \<Rightarrow> (bytes \<times> bytes) list \<Rightarrow> wb_op list \<Rightarrow> bytes
                   \<Rightarrow> error option \<times> wb_op list \<times> bytes" where
  "copy_group pl serr [] batch jrnl = (None, batch, jrnl)"
| "copy_group pl serr ((k, v) # kvs) batch jrnl =
     (if length k < pl then (Some Panic, batch, jrnl)
      else (case b32_decode (drop pl k) of
        Inl e \<Rightarrow> (Some (ErrUndecodableKey (drop pl k)), batch, jrnl)
      | Inr mh \<Rightarrow>
          (if mhBuf_len < length mh then (Some Panic, batch, jrnl)
           else (case isMultihashSupported mh of
                   Inl e \<Rightarrow> (Some (ErrUnsupportedMultihash e), batch, jrnl)
                 | Inr smh \<Rightarrow>
                     (if serr k then (Some ErrBadger, batch, jrnl)
                      else copy_group pl serr kvs (batch @ [WSet k v])
                             (jrnl @ journalShortCode smh # drop (length mh - supportedHashLen) mh))))))"

fun copy_groups :: "copy_io \<Rightarrow> nat \<Rightarrow> nat \<Rightarrow> (bytes \<times> bytes) list list \<Rightarrow> wb_op list \<Rightarrow> journal
                    \<Rightarrow> error option \<times> wb_op list \<times> journal" where
  "copy_groups io pl g [] batch j = (None, batch, j)"
| "copy_groups io pl g (kvs # rest) batch j =
     (if copy_ctx_err io g then (Some ErrContext, batch, j)
      else (case copy_group pl (copy_set_err io) kvs batch [] of
              (Some e, batch', jrnl) \<Rightarrow> (Some e, batch', j)
            | (None, batch', jrnl) \<Rightarrow>
                (case journal_Write (copy_jwrite_err io g) j jrnl of
                   (Some e, j') \<Rightarrow> (Some e, batch', j')
                 | (None, j') \<Rightarrow> copy_groups io pl (Suc g) rest batch' j')))"

text \<open>
  \<open>iterateBadger\<close> hands over the entries whose key and value are not nil, group by
  group; the engine gives nil for an empty value.
\<close>

definition stream_groups :: "nat list \<Rightarrow> badger_db \<Rightarrow> (bytes \<times> bytes) list list" where
  "stream_groups sizes d =
     filter (\<lambda>g. g \<noteq> [])
       (map (filter (\<lambda>(k, v). k \<noteq> [] \<and> v \<noteq> []))
          (split_groups sizes (sort_key fst (kv d))))"

definition doCopy :: "copy_io \<Rightarrow> nat \<Rightarrow> badger_db \<Rightarrow> badger_db \<Rightarrow> journal
                      \<Rightarrow> error option \<times> badger_db \<times> journal" where
  "doCopy io pl from to jrnlFh =
     (case copy_groups io pl 0 (stream_groups (group_sizes io) from) [] jrnlFh of
        (Some e, batch, j) \<Rightarrow>
          (Some e, to\<lparr>kv := apply_batch (take (copy_committed io) batch) (kv to)\<rparr>, j)
      | (None, batch, j) \<Rightarrow>
          (case copy_stream_err io of
             Some e \<Rightarrow>
               (Some e, to\<lparr>kv := apply_batch (take (copy_committed io) batch) (kv to)\<rparr>, j)
           | None \<Rightarrow>
               (if copy_flush_err io then
                  (Some ErrBadger,
                   to\<lparr>kv := apply_batch (take (copy_committed io) batch) (kv to)\<rparr>, j)
                else (None, batch_Flush batch to, j))))"

subsection \<open>Moving collection\<close>

record delete_io =
  del_eval_err :: bool
  del_removeall_err :: bool
  del_remove_err :: bool

definition deleteDB :: "delete_io \<Rightarrow> path \<Rightarrow> world \<Rightarrow> world" where
  "deleteDB io p w =
     (case EvalSymlinks (del_eval_err io) w p of
        Inl e \<Rightarrow> w
      | Inr linkPath \<Rightarrow>
          (if del_removeall_err io then w
           else (let w1 = w\<lparr>fs_dirs := removeAll linkPath (fs_dirs w)\<rparr> in
                 if p \<noteq> linkPath then
                   (if del_remove_err io then w1
                    else w1\<lparr>fs_links := AList.delete p (fs_links w1)\<rparr>)
                 else w1)))"

definition os_Rename :: "path \<Rightarrow> path \<Rightarrow> world \<Rightarrow> world" where
  "os_Rename old new w =
     (case map_of (fs_links w) old of
        Some t \<Rightarrow> w\<lparr>fs_links := (new, t) # AList.delete old (fs_links w)\<rparr>
      | None \<Rightarrow> w\<lparr>fs_dirs := map (\<lambda>d. if d = old then new else d) (fs_dirs w)\<rparr>)"

record symlink_io =
  sym_eval1_err :: bool
  sym_eval2_err :: bool
  sym_link_err :: bool

definition symlink :: "symlink_io \<Rightarrow> path \<Rightarrow> path \<Rightarrow> world \<Rightarrow> error option \<times> world" where
  "symlink io p linkTo w =
     (case EvalSymlinks (sym_eval1_err io) w (path_Dir p) of
        Inl e \<Rightarrow> (Some e, w)
      | Inr resolvedPathDir \<Rightarrow>
          (case EvalSymlinks (sym_eval2_err io) w (path_Dir linkTo) of
             Inl e \<Rightarrow> (Some e, w)
           | Inr resolvedLinkDir \<Rightarrow>
               (let p' = (if resolvedPathDir = resolvedLinkDir then path_Base p else p) in
                if sym_link_err io then (Some ErrFilesystem, w)
                else (None, w\<lparr>fs_links := (linkTo, p') # fs_links w\<rparr>))))"

text \<open>
  What the environment answers during one \<open>movingGC\<close>; \<open>nanos\<close> and \<open>secs\<close> are the
  clock readings as printed into the new and the backup path.
\<close>

record mgc_io =
  eval_err :: bool
  nanos :: string
  secs :: string
  new_db_err :: bool
  new_on_disk :: "(bytes \<times> bytes) list"
  new_journal_io :: journal_io
  copy :: copy_io
  rename_err :: bool
  sym :: symlink_io
  del_new :: delete_io
  del_backup :: delete_io

text \<open>
  The body of \<open>movingGC\<close> after the initial fence: the result, the value of the local
  \<open>newPath\<close> when the body is left, and the state.
\<close>

definition movingGC_body :: "mgc_io \<Rightarrow> world \<Rightarrow> error option \<times> path \<times> world" where
  "movingGC_body io w =
     (let basePath = opts_Dir w in
      case EvalSymlinks (eval_err io) w basePath of
        Inl e \<Rightarrow> (Some e, [], w)
      | Inr linkPath \<Rightarrow>
          (let newPath0 = (if basePath = linkPath then basePath
                           else path_Join (path_Dir linkPath) (path_Base basePath));
               newPath = newPath0 @ ''.'' @ nanos io
           in case badger_Open (new_db_err io) (new_on_disk io) newPath w of
                Inl e \<Rightarrow> (Some e, newPath, w)
              | Inr (dbNew, w1) \<Rightarrow>
                  (case openJournal (new_journal_io io) newPath w1 of
                     (Inl e, w2) \<Rightarrow> (Some e, newPath, w2)
                   | (Inr mhjNew, w2) \<Rightarrow>
                       (case lockMove w2 of
                          None \<Rightarrow> (Some Blocked, newPath, w2)
                        | Some w3 \<Rightarrow>
                            (let w4 = unlockMove moveStateMoving
                                        (w3\<lparr>dbNext := Some dbNew, mhJournalNext := Some mhjNew\<rparr>)
                             in case doCopy (copy io) (prefixLen w4) (db w4) dbNew mhjNew of
                                  (Some e, dbN, mhjN) \<Rightarrow>
                                    (Some e, newPath,
                                     w4\<lparr>dbNext := Some dbN, mhJournalNext := Some mhjN\<rparr>)
                                | (None, dbN, mhjN) \<Rightarrow>
                                    (case lockMove w4 of
                                       None \<Rightarrow> (Some Blocked, newPath, w4)
                                     | Some w5 \<Rightarrow>
                                         (let dbOld = db w5; mhjOld = mhJournal w5;
                                              w6 = unlockMove moveStateCleanup
                                                     (w5\<lparr>db := dbN, mhJournal := Some mhjN,
                                                         dbNext := None, mhJournalNext := None\<rparr>);
                                              w7 = w6\<lparr>open_dbs := remove1 (db_dir dbOld) (open_dbs w6)\<rparr>;
                                              w8 = (case mhjOld of
                                                      None \<Rightarrow> w7
                                                    | Some j \<Rightarrow>
                                                        w7\<lparr>open_journals :=
                                                             remove1 (j_dir j) (open_journals w7)\<rparr>);
                                              dbPath = opts_Dir w8;
                                              backupPath = dbPath @ ''.old.'' @ secs io
                                          in if rename_err io then (Some Panic, newPath, w8)
                                             else (case symlink (sym io) newPath dbPath
                                                          (os_Rename dbPath backupPath w8) of
                                                     (Some e, w9) \<Rightarrow> (Some Panic, newPath, w9)
                                                   | (None, w9) \<Rightarrow>
                                                       (None, newPath,
                                                        deleteDB (del_backup io) backupPath w9)))))))))"

text \<open>The deferred function of \<open>movingGC\<close>.\<close>

definition movingGC_deferred :: "mgc_io \<Rightarrow> path \<Rightarrow> world \<Rightarrow> world option" where
  "movingGC_deferred io newPath w =
     (case lockMove w of
        None \<Rightarrow> None
      | Some w1 \<Rightarrow>
          (let dbNext' = dbNext w1; mhJournalNext' = mhJournalNext w1;
               w2 = w1\<lparr>dbNext := None, mhJournalNext := None\<rparr>;
               st = (if dbNext' \<noteq> None then moveStateCleanup else moveStateNone);
               w3 = unlockMove st w2
           in case dbNext' of
                None \<Rightarrow> Some w3
              | Some dn \<Rightarrow>
                  (let w4 = w3\<lparr>open_dbs := remove1 (db_dir dn) (open_dbs w3)\<rparr>;
                       w5 = (case mhJournalNext' of
                               None \<Rightarrow> w4
                             | Some j \<Rightarrow> w4\<lparr>open_journals := remove1 (j_dir j) (open_journals w4)\<rparr>);
                       w6 = deleteDB (del_new io) newPath w5
                   in case lockMove w6 of
                        None \<Rightarrow> None
                      | Some w7 \<Rightarrow> Some (unlockMove moveStateNone w7))))"

definition movingGC :: "mgc_io \<Rightarrow> world \<Rightarrow> error option \<times> world" where
  "movingGC io w =
     (if moveState w \<noteq> moveStateNone then (Some ErrMoveInProgress, w)
      else if 0 < rlock w then (Some Blocked, w\<lparr>moveState := moveStateLock\<rparr>)
      else (case movingGC_body io (w\<lparr>moveState := moveStateMoving\<rparr>) of
              (r, newPath, w1) \<Rightarrow>
                (case movingGC_deferred io newPath w1 of
                   None \<Rightarrow> (Some Blocked, w1)
                 | Some w2 \<Rightarrow> (r, w2))))"

subsection \<open>Online collection\<close>

text \<open>
  One pass of the \<open>select\<close> of \<open>onlineGC\<close>: the context is done, the timer fired, or
  neither and \<open>RunValueLogGC\<close> is called (with its answer for the threshold). A run is
  described by the passes it makes; when they are used up the loop is still running and
  the call has not returned: \<open>None\<close>.
\<close>

datatype gc_event = EvCtxDone | EvTick | EvDefault "rat \<Rightarrow> error option"

fun gc_loop :: "rat \<Rightarrow> (nat \<Rightarrow> error option) \<Rightarrow> nat \<Rightarrow> gc_event list \<Rightarrow> error option" where
  "gc_loop threshold check n [] = None"
| "gc_loop threshold check n (EvCtxDone # es) = Some ErrContext"
| "gc_loop threshold check n (EvTick # es) =
     (case check n of Some e \<Rightarrow> Some e | None \<Rightarrow> gc_loop threshold check (Suc n) es)"
| "gc_loop threshold check n (EvDefault r # es) =
     (case r threshold of Some e \<Rightarrow> Some e | None \<Rightarrow> gc_loop threshold check n es)"

record gc_io =
  NumCPU :: int
  Flatten :: "int \<Rightarrow> error option"
  events :: "gc_event list"
  mgc :: mgc_io

definition onlineGC :: "gc_io \<Rightarrow> rat \<Rightarrow> int \<Rightarrow> (nat \<Rightarrow> error option) \<Rightarrow> world
                        \<Rightarrow> ((error + unit) \<times> world) option" where
  "onlineGC io threshold checkFreq check w =
     (case lockDB w of
        None \<Rightarrow> Some (Inl Blocked, w)
      | Some w1 \<Rightarrow>
          (let nworkers0 = NumCPU io div 2;
               nworkers1 = (if nworkers0 < 2 then 2 else nworkers0);
               nworkers = (if 7 < nworkers1 then 7 else nworkers1)
           in case Flatten io nworkers of
                Some e \<Rightarrow> Some (Inl e, unlockDB w1)
              | None \<Rightarrow>
                  (case gc_loop threshold check 0 (events io) of
                     None \<Rightarrow> None
                   | Some e \<Rightarrow>
                       Some ((if e = ErrNoRewrite then Inr () else Inl e), unlockDB w1))))"

text \<open>
  \<open>BlockstoreGCOptions\<close> is declared in another package; its fields are the ones this
  file reads. \<open>Check\<close> is nil or a function, here of the number of earlier checks.
\<close>

record BlockstoreGCOptions =
  FullGC :: bool
  Threshold :: rat
  CheckFreq :: int
  Check :: "(nat \<Rightarrow> error option) option"

type_synonym BlockstoreGCOption = "BlockstoreGCOptions \<Rightarrow> error + BlockstoreGCOptions"

fun apply_opts :: "BlockstoreGCOption list \<Rightarrow> BlockstoreGCOptions \<Rightarrow> error + BlockstoreGCOptions" where
  "apply_opts [] options = Inr options"
| "apply_opts (opt # opts) options =
     (case opt options of Inl e \<Rightarrow> Inl e | Inr options' \<Rightarrow> apply_opts opts options')"

definition zero_options :: BlockstoreGCOptions where
  "zero_options = \<lparr>FullGC = False, Threshold = 0, CheckFreq = 0, Check = None\<rparr>"

definition defaultGCThreshold :: rat where
  "defaultGCThreshold = 1 / 8"

definition Second :: int where
  "Second = 1000000000"

definition CollectGarbage :: "gc_io \<Rightarrow> world \<Rightarrow> BlockstoreGCOption list
                              \<Rightarrow> ((error + unit) \<times> world) option" where
  "CollectGarbage io w opts =
     (case access w of
        Inl e \<Rightarrow> Some (Inl e, w)
      | Inr w1 \<Rightarrow>
          (case apply_opts opts zero_options of
             Inl e \<Rightarrow> Some (Inl e, viewers_Done w1)
           | Inr options \<Rightarrow>
               (if FullGC options then
                  (case movingGC (mgc io) w1 of
                     (r, w2) \<Rightarrow>
                       Some ((case r of None \<Rightarrow> Inr () | Some e \<Rightarrow> Inl e), viewers_Done w2))
                else
                  (let threshold = (if Threshold options = 0 then defaultGCThreshold
                                    else Threshold options);
                       checkFreq = (if CheckFreq options < 30 * Second then 30 * Second
                                    else CheckFreq options);
                       check = (case Check options of None \<Rightarrow> (\<lambda>n. None) | Some f \<Rightarrow> f)
                   in map_option (\<lambda>(r, w2). (r, viewers_Done w2))
                        (onlineGC io threshold checkFreq check w1)))))"

definition GCOnce :: "(rat \<Rightarrow> error option) \<Rightarrow> world \<Rightarrow> BlockstoreGCOption list
                      \<Rightarrow> (error + unit) \<times> world" where
  "GCOnce RunValueLogGC w opts =
     (case access w of
        Inl e \<Rightarrow> (Inl e, w)
      | Inr w1 \<Rightarrow>
          (case apply_opts opts zero_options of
             Inl e \<Rightarrow> (Inl e, viewers_Done w1)
           | Inr options \<Rightarrow>
               (if FullGC options then (Inl ErrFullGCOnce, viewers_Done w1)
                else
                  (let threshold = (if Threshold options = 0 then defaultGCThreshold
                                    else Threshold options)
                   in case lockDB w1 of
                        None \<Rightarrow> (Inl Blocked, w1)
                      | Some w2 \<Rightarrow>
                          ((case RunValueLogGC threshold of
                              None \<Rightarrow> Inr ()
                            | Some e \<Rightarrow> (if e = ErrNoRewrite then Inr () else Inl e)),
                           viewers_Done (unlockDB w2))))))"

section \<open>Notions used in the properties\<close>

text \<open>
  What \<open>Open\<close> establishes for the prefix fields and no operation changes.
\<close>

definition prefix_ok :: "world \<Rightarrow> bool" where
  "prefix_ok w = (prefixLen w = length (prefix w) \<and> prefixing w = (prefix w \<noteq> []))"

definition storage_key :: "world \<Rightarrow> cid \<Rightarrow> bytes" where
  "storage_key w c = fst (fst (PooledStorageKey w c))"

text \<open>The engine finds every key of the batch.\<close>

definition all_present :: "world \<Rightarrow> block list \<Rightarrow> bool" where
  "all_present w blocks =
     list_all (\<lambda>b. storage_key w (Cid b) \<noteq> [] \<and> map_of (kv (db w)) (storage_key w (Cid b)) \<noteq> None) blocks"

definition batch_entries :: "block list \<Rightarrow> bytes option list \<Rightarrow> wb_op list" where
  "batch_entries blocks keys =
     concat (map (\<lambda>(b, k). case k of None \<Rightarrow> [] | Some key \<Rightarrow> [WSet key (RawData b)]) (zip blocks keys))"

definition journal_record :: "bytes \<Rightarrow> bytes" where
  "journal_record mh =
     (case isMultihashSupported mh of
        Inl e \<Rightarrow> []
      | Inr smh \<Rightarrow> journalShortCode smh # drop (length mh - supportedHashLen) mh)"

definition absent_keys :: "badger_db \<Rightarrow> bytes list \<Rightarrow> bytes option list" where
  "absent_keys d ks = map (\<lambda>k. if map_of (kv d) k = None then Some k else None) ks"

definition journal_buffer :: "badger_db \<Rightarrow> block list \<Rightarrow> bytes list \<Rightarrow> bytes" where
  "journal_buffer d blocks ks =
     concat (map (\<lambda>(b, k). if map_of (kv d) k = None then journal_record (Hash (Cid b)) else [])
               (zip blocks ks))"

definition stores :: "world \<Rightarrow> badger_db \<times> journal option \<times> badger_db option \<times> journal option" where
  "stores w = (db w, mhJournal w, dbNext w, mhJournalNext w)"

definition control :: "world \<Rightarrow> bsState \<times> int \<times> bsMoveState \<times> int \<times> bool \<times> bytes \<times> nat" where
  "control w = (state w, viewers w, moveState w, rlock w, prefixing w, prefix w, prefixLen w)"

text \<open>
  The digest policy in the words of the specification: a multihash is refused when the
  bytes before its last 32 are not a prefix of the table, or when it has fewer than 32.
\<close>

definition mh_prefix :: "bytes \<Rightarrow> bytes" where
  "mh_prefix mh = take (length mh - supportedHashLen) mh"

definition unsupported_digest :: "bytes \<Rightarrow> bool" where
  "unsupported_digest mh =
     (length mh < supportedHashLen \<or> supportedMultihashes (mh_prefix mh) = None)"

definition supported :: "bytes \<Rightarrow> bool" where
  "supported mh = (case isMultihashSupported mh of Inl e \<Rightarrow> False | Inr smh \<Rightarrow> True)"

text \<open>
  Every key of the store decodes, after the prefix, to a multihash the digest policy
  accepts.
\<close>

definition kv_supported :: "world \<Rightarrow> bool" where
  "kv_supported w =
     list_all (\<lambda>(k, v). case b32_decode (drop (prefixLen w) k) of
                           Inl e \<Rightarrow> False
                         | Inr mh \<Rightarrow> supported mh)
       (kv (db w))"

text \<open>What decoding the key of an entry gives: the cid, or the error of the decoder.\<close>

definition key_cid :: "world \<Rightarrow> bytes \<Rightarrow> cid option" where
  "key_cid w k =
     (case b32_decode (strip_prefix w k) of Inl e \<Rightarrow> None | Inr mh \<Rightarrow> Some (NewCidV1 Raw mh))"

definition key_err :: "world \<Rightarrow> bytes \<Rightarrow> error option" where
  "key_err w k = (case b32_decode (strip_prefix w k) of Inl e \<Rightarrow> Some e | Inr mh \<Rightarrow> None)"

section \<open>Example stores and runs\<close>

text \<open>
  Inputs the properties below are evaluated on. \<open>store0\<close> is the store \<open>Open\<close> gives
  for a fresh directory without prefix, \<open>store_ns\<close> one with the prefix \<open>ns/\<close>;
  \<open>mh_sha\<close> is a SHA2-256 multihash and \<open>mh_unknown\<close> one with an unknown prefix.
\<close>

definition store0 :: world where
  "store0 =
     \<lparr>state = stateOpen, viewers = 0, moveState = moveStateNone, rlock = 0,
      db = \<lparr>db_dir = ''/tmp/bs'', kv = []\<rparr>,
      mhJournal = Some \<lparr>j_dir = ''/tmp/bs'', j_data = []\<rparr>,
      dbNext = None, mhJournalNext = None,
      opts_Dir = ''/tmp/bs'', opts_ReadOnly = False,
      prefixing = False, prefix = [], prefixLen = 0,
      pool_out = 0, fs_dirs = [''/tmp/bs''], fs_links = [],
      open_dbs = [''/tmp/bs''], open_journals = [''/tmp/bs'']\<rparr>"

definition ns :: bytes where
  "ns = [110, 115, 47]"

definition store_ns :: world where
  "store_ns = store0\<lparr>prefixing := True, prefix := ns, prefixLen := 3\<rparr>"

definition open_ok :: open_io where
  "open_ok = \<lparr>open_db_err = False, open_on_disk = [],
              open_journal_io = \<lparr>openfile_err = False, fadvWriter = None\<rparr>\<rparr>"

definition rd_ok :: rd_io where
  "rd_ok = \<lparr>get_err = False, item_err = False\<rparr>"

definition wb_ok :: wb_io where
  "wb_ok = \<lparr>set_err = (\<lambda>i. False), flush_err = False, committed = 0, jwrite_err = None\<rparr>"

definition put_ok :: put_io where
  "put_ok = \<lparr>view_err = (\<lambda>i. False), wb = wb_ok, wb_next = wb_ok\<rparr>"

definition iter_ok :: iter_io where
  "iter_ok = \<lparr>ctx_done = (\<lambda>i. False), closed_at = (\<lambda>i. False)\<rparr>"

definition mh_sha :: bytes where
  "mh_sha = [0x12, 0x20] @ replicate 32 0x11"


definition cid_sha :: cid where
  "cid_sha = CidV1 Raw mh_sha"

definition hello :: bytes where
  "hello = [104, 101, 108, 108, 111]"

definition world' :: bytes where
  "world' = [119, 111, 114, 108, 100]"

text \<open>A store that already holds \<open>hello\<close> under the key of \<open>cid_sha\<close>.\<close>

definition store_hello :: world where
  "store_hello = store0\<lparr>db := \<lparr>db_dir = ''/tmp/bs'', kv = [(b32_encode mh_sha, hello)]\<rparr>\<rparr>"




definition copy_ok :: copy_io where
  "copy_ok = \<lparr>group_sizes = [], copy_ctx_err = (\<lambda>g. False), copy_set_err = (\<lambda>k. False),
              copy_jwrite_err = (\<lambda>g. None), copy_stream_err = None, copy_flush_err = False,
              copy_committed = 0\<rparr>"

definition del_ok :: delete_io where
  "del_ok = \<lparr>del_eval_err = False, del_removeall_err = False, del_remove_err = False\<rparr>"

text \<open>
  A moving collection in which nothing fails, one in which opening the journal of the
  new store fails, and one whose context is cancelled during the copy.
\<close>

definition mgc_ok :: mgc_io where
  "mgc_ok = \<lparr>eval_err = False, nanos = ''1'', secs = ''2'', new_db_err = False, new_on_disk = [],
             new_journal_io = \<lparr>openfile_err = False, fadvWriter = None\<rparr>, copy = copy_ok,
             rename_err = False,
             sym = \<lparr>sym_eval1_err = False, sym_eval2_err = False, sym_link_err = False\<rparr>,
             del_new = del_ok, del_backup = del_ok\<rparr>"

definition mgc_journal_fails :: mgc_io where
  "mgc_journal_fails = mgc_ok\<lparr>new_journal_io := \<lparr>openfile_err = True, fadvWriter = None\<rparr>\<rparr>"

definition mgc_cancelled :: mgc_io where
  "mgc_cancelled = mgc_ok\<lparr>copy := copy_ok\<lparr>copy_ctx_err := (\<lambda>g. True)\<rparr>\<rparr>"

text \<open>A store with three keys, the second of which is not base32.\<close>

definition store_bad :: world where
  "store_bad =
     store0\<lparr>db := \<lparr>db_dir = ''/tmp/bs'',
                     kv = [([67, 65], hello), ([65, 65], hello), ([66, 49], hello)]\<rparr>\<rparr>"

section \<open>Properties of the codecs\<close>

lemma length_bits_of_nat: "length (bits_of_nat w n) = w"
  by (induction w arbitrary: n) auto

lemma nat_of_bits_snoc: "nat_of_bits (bs @ [b]) = 2 * nat_of_bits bs + (if b then 1 else 0)"
  by (simp add: nat_of_bits_def)

lemma nat_of_bits_Nil: "nat_of_bits [] = 0"
  by (simp add: nat_of_bits_def)

lemma nat_of_bits_of_nat: "nat_of_bits (bits_of_nat w n) = n mod 2 ^ w"
proof (induction w arbitrary: n)
  case 0
  show ?case by (simp add: nat_of_bits_Nil)
next
  case (Suc w)
  have "n mod (2 * 2 ^ w) = 2 * ((n div 2) mod 2 ^ w) + n mod 2"
    by (simp add: mod_mult2_eq)
  then show ?case
    using Suc by (simp add: nat_of_bits_snoc odd_iff_mod_2_eq_one)
qed

lemma bits_of_nat_of_bits: "bits_of_nat (length bs) (nat_of_bits bs) = bs"
proof (induction bs rule: rev_induct)
  case Nil
  show ?case by simp
next
  case (snoc b bs)
  then show ?case by (simp add: nat_of_bits_snoc)
qed

lemma nat_of_bits_less: "nat_of_bits bs < 2 ^ length bs"
proof (induction bs rule: rev_induct)
  case Nil
  show ?case by (simp add: nat_of_bits_Nil)
next
  case (snoc b bs)
  then show ?case by (simp add: nat_of_bits_snoc)
qed

lemma byte_of_bits_of_byte: "byte_of_bits (bits_of_byte b) = b"
proof -
  have "unat b < 2 ^ 8"
    using unsigned_less [of b, where 'a = nat] by simp
  then show ?thesis
    by (simp add: byte_of_bits_def bits_of_byte_def nat_of_bits_of_nat)
qed

lemma dec_enc_char: "i < 32 \<Longrightarrow> dec_char (enc_char i) = Some i"
  by (simp add: dec_char_def enc_char_def unat_of_nat Let_def)

lemma groups5_lengths: "g \<in> set (groups5 xs) \<Longrightarrow> length g = 5"
  by (induction xs arbitrary: g rule: groups5.induct) auto

lemma concat_groups5:
  "concat (groups5 xs) = xs @ replicate ((5 - length xs mod 5) mod 5) False"
  by (induction xs rule: groups5.induct) (auto simp: mod_Suc)

lemma length_groups5: "length (groups5 xs) = (length xs + 4) div 5"
  by (induction xs rule: groups5.induct) auto

lemma groups8_append: "length xs = 8 \<Longrightarrow> groups8 (xs @ ys) = xs # groups8 ys"
  by (auto simp: eval_nat_numeral length_Suc_conv)

lemma length_bits_of_byte: "length (bits_of_byte b) = 8"
  by (simp add: bits_of_byte_def length_bits_of_nat)

lemma groups8_bytes: "groups8 (concat (map bits_of_byte h)) = map bits_of_byte h"
  by (induction h) (simp_all add: groups8_append length_bits_of_byte)

lemma length_concat_bytes: "length (concat (map bits_of_byte h)) = 8 * length h"
  by (induction h) (simp_all add: length_bits_of_byte)

lemma decoded_bytes_split:
  "k < 8 \<Longrightarrow> decoded_bytes (8 * q + k) =
     5 * q + (if k = 2 then 1 else if k = 4 then 2 else if k = 5 then 3 else if k = 7 then 4 else 0)"
  by (simp add: decoded_bytes_def Let_def)

lemma decoded_bytes_EncodedLen: "decoded_bytes (EncodedLen n) = n"
proof -
  obtain q r where n: "n = 5 * q + r" and r: "r < 5"
    by (metis mod_less_divisor mult_div_mod_eq zero_less_numeral)
  from r consider "r = 0" | "r = 1" | "r = 2" | "r = 3" | "r = 4" by linarith
  then show ?thesis
  proof cases
    case 1
    have "EncodedLen n = 8 * q + 0" using n 1 by (simp add: EncodedLen_def)
    then show ?thesis using n 1 decoded_bytes_split [of 0 q] by simp
  next
    case 2
    have "EncodedLen n = 8 * q + 2" using n 2 by (simp add: EncodedLen_def)
    then show ?thesis using n 2 decoded_bytes_split [of 2 q] by simp
  next
    case 3
    have "EncodedLen n = 8 * q + 4" using n 3 by (simp add: EncodedLen_def)
    then show ?thesis using n 3 decoded_bytes_split [of 4 q] by simp
  next
    case 4
    have "EncodedLen n = 8 * q + 5" using n 4 by (simp add: EncodedLen_def)
    then show ?thesis using n 4 decoded_bytes_split [of 5 q] by simp
  next
    case 5
    have "EncodedLen n = 8 * q + 7" using n 5 by (simp add: EncodedLen_def)
    then show ?thesis using n 5 decoded_bytes_split [of 7 q] by simp
  qed
qed

lemma length_b32_encode: "length (b32_encode h) = EncodedLen (length h)"
  by (simp add: b32_encode_def length_groups5 length_concat_bytes EncodedLen_def mult.commute)

lemma first_corrupt_encoded:
  "\<forall>g \<in> set gs. length g = 5 \<Longrightarrow> first_corrupt i (map (\<lambda>g. enc_char (nat_of_bits g)) gs) = None"
proof (induction gs arbitrary: i)
  case Nil
  show ?case by simp
next
  case (Cons g gs)
  have "nat_of_bits g < 32"
    using nat_of_bits_less [of g] Cons.prems by simp
  then show ?case using Cons by (simp add: dec_enc_char)
qed

lemma decode_groups:
  "\<forall>g \<in> set gs. length g = 5 \<Longrightarrow>
     concat (map (\<lambda>c. bits_of_nat 5 (the (dec_char c))) (map (\<lambda>g. enc_char (nat_of_bits g)) gs))
       = concat gs"
proof (induction gs)
  case Nil
  show ?case by simp
next
  case (Cons g gs)
  have lt: "nat_of_bits g < 32"
    using nat_of_bits_less [of g] Cons.prems by simp
  have "bits_of_nat 5 (nat_of_bits g) = g"
    using bits_of_nat_of_bits [of g] Cons.prems by simp
  then show ?case using Cons lt by (simp add: dec_enc_char)
qed

lemma b32_roundtrip: "b32_decode (b32_encode h) = Inr h"
proof -
  let ?bits = "concat (map bits_of_byte h)"
  have len5: "\<forall>g \<in> set (groups5 ?bits). length g = 5"
    by (simp add: groups5_lengths)
  have nc: "first_corrupt 0 (b32_encode h) = None"
    unfolding b32_encode_def by (rule first_corrupt_encoded [OF len5])
  have bits: "concat (map (\<lambda>c. bits_of_nat 5 (the (dec_char c))) (b32_encode h))
                = ?bits @ replicate ((5 - length ?bits mod 5) mod 5) False"
    unfolding b32_encode_def by (simp only: decode_groups [OF len5] concat_groups5)
  have n: "8 * decoded_bytes (length (b32_encode h)) = length ?bits"
    by (simp add: length_b32_encode decoded_bytes_EncodedLen length_concat_bytes)
  have "map byte_of_bits (groups8 ?bits) = h"
    by (simp add: groups8_bytes byte_of_bits_of_byte map_idI)
  then show ?thesis
    unfolding b32_decode_def by (simp add: nc bits n)
qed


section \<open>Lifecycle\<close>

lemma Open_store0:
  "Open open_ok [] [] \<lparr>Dir = ''/tmp/bs'', ReadOnly = False, Prefix = []\<rparr> = Inr store0"
  by (simp add: Open_def open_ok_def badger_Open_def openJournal_def store0_def)

text \<open>
  C7, as the code has it: once the state has left \<open>stateOpen\<close>, every operation that
  passes the gate returns \<open>ErrBlockstoreClosed\<close> and leaves the state as it is, and
  \<open>Close\<close> returns nil. \<open>Get\<close> tests the cid before the gate: for an undefined cid
  it returns \<open>ErrNotFound\<close> also on a closed store.
\<close>

theorem closed_ops:
  assumes "state w \<noteq> stateOpen"
  shows "Has rio w c = (Inl ErrBlockstoreClosed, w) \<and>
         View rio w c fn = (Inl ErrBlockstoreClosed, w) \<and>
         GetSize rio w c = (Inl ErrBlockstoreClosed, w) \<and>
         Get rio w c = (Inl (if Defined c then ErrBlockstoreClosed else ErrNotFound c), w) \<and>
         PutMany pio w blocks = (Inl ErrBlockstoreClosed, w) \<and>
         Put pio w blk = (Inl ErrBlockstoreClosed, w) \<and>
         DeleteMany wio w cids = (Inl ErrBlockstoreClosed, w) \<and>
         DeleteBlock wio w c = (Inl ErrBlockstoreClosed, w) \<and>
         AllKeysChan iio w = (Inl ErrBlockstoreClosed, w) \<and>
         ForEachKey iio w f = ((Inl ErrBlockstoreClosed, []), w) \<and>
         Flush fio w = (Inl ErrBlockstoreClosed, w) \<and>
         CollectGarbage gio w opts = Some (Inl ErrBlockstoreClosed, w) \<and>
         GCOnce vlog w opts = (Inl ErrBlockstoreClosed, w) \<and>
         Close cio w = (None, w)"
  using assms
  by (simp add: Has_def View_def GetSize_def Get_def PutMany_def Put_def DeleteMany_def
      DeleteBlock_def AllKeysChan_def ForEachKey_def Flush_def CollectGarbage_def GCOnce_def
      Close_def guarded_def access_def)

theorem closed_ops_witness:
  "state (store0\<lparr>state := stateClosing\<rparr>) \<noteq> stateOpen \<and>
   Has rd_ok (store0\<lparr>state := stateClosing\<rparr>) cid_sha
     = (Inl ErrBlockstoreClosed, store0\<lparr>state := stateClosing\<rparr>) \<and>
   Get rd_ok (store0\<lparr>state := stateClosing\<rparr>) cid_sha
     = (Inl ErrBlockstoreClosed, store0\<lparr>state := stateClosing\<rparr>) \<and>
   PutMany put_ok (store0\<lparr>state := stateClosing\<rparr>) [\<lparr>Cid = cid_sha, RawData = hello\<rparr>]
     = (Inl ErrBlockstoreClosed, store0\<lparr>state := stateClosing\<rparr>) \<and>
   Close \<lparr>close_db = None, close_journal = None\<rparr> (store0\<lparr>state := stateClosing\<rparr>)
     = (None, store0\<lparr>state := stateClosing\<rparr>)"
  using closed_ops [of "store0\<lparr>state := stateClosing\<rparr>" rd_ok cid_sha "\<lambda>v. None" put_ok
      "[\<lparr>Cid = cid_sha, RawData = hello\<rparr>]" "\<lparr>Cid = cid_sha, RawData = hello\<rparr>"
      wb_ok "[]" iter_ok "\<lambda>c. None"
      "\<lparr>sync_db = None, sync_journal = None, sync_dbNext = None, sync_journalNext = None\<rparr>"
      gio "[]" "\<lambda>t. None" "\<lparr>close_db = None, close_journal = None\<rparr>"]
  by (simp add: cid_sha_def)

theorem closed_get_undef_counterexample:
  "fst (Get rd_ok (store0\<lparr>state := stateClosed\<rparr>) CidUndef) = Inl (ErrNotFound CidUndef) \<and>
   fst (Get rd_ok (store0\<lparr>state := stateClosed\<rparr>) CidUndef) \<noteq> Inl ErrBlockstoreClosed"
  by (simp add: Get_def)

section \<open>Key codec\<close>

lemma Open_prefix_ok: "Open io dirs links opts = Inr w \<Longrightarrow> prefix_ok w \<and> prefix w = Prefix opts"
  by (auto simp: Open_def prefix_ok_def badger_Open_def openJournal_def Let_def
      split: if_splits sum.splits prod.splits)

lemma encode_at_fresh:
  "length buf = length p + EncodedLen (length h) \<Longrightarrow>
     encode_at (length p) (copy_bytes buf p) h = p @ b32_encode h"
  by (simp add: encode_at_def copy_bytes_def)

lemma encode_at_buf:
  "length p + EncodedLen (length h) \<le> length buf \<Longrightarrow>
     take (length p + EncodedLen (length h)) (encode_at (length p) (copy_bytes buf p) h)
       = p @ b32_encode h"
  by (simp add: encode_at_def copy_bytes_def length_b32_encode)

lemma encode_at_0:
  "EncodedLen (length h) \<le> length buf \<Longrightarrow>
     take (EncodedLen (length h)) (encode_at 0 buf h) = b32_encode h"
  by (simp add: encode_at_def length_b32_encode)

lemma PooledStorageKey_eq:
  "prefix_ok w \<Longrightarrow> PooledStorageKey w c = ((prefix w @ b32_encode (Hash c), True), pool_Get w)"
  using encode_at_fresh [of "replicate (EncodedLen (length (Hash c)) + length (prefix w)) 0" "prefix w" "Hash c"]
        encode_at_0 [of "Hash c" "replicate (EncodedLen (length (Hash c))) 0"]
  by (auto simp: PooledStorageKey_def prefix_ok_def Let_def encode_at_def length_b32_encode)

lemma StorageKey_eq:
  "prefix_ok w \<Longrightarrow> StorageKey w dst c = prefix w @ b32_encode (Hash c)"
  using encode_at_buf [of "prefix w" "Hash c" "fst dst"]
        encode_at_buf [of "prefix w" "Hash c" "replicate (EncodedLen (length (Hash c)) + length (prefix w)) 0"]
        encode_at_0 [of "Hash c" "fst dst"]
        encode_at_0 [of "Hash c" "replicate (EncodedLen (length (Hash c))) 0"]
  by (auto simp: StorageKey_def prefix_ok_def Let_def add.commute)

text \<open>
  C8: the key of a cid is the prefix followed by the unpadded base32 text of its
  multihash, from \<open>PooledStorageKey\<close> and from \<open>StorageKey\<close> alike, and decoding the
  key after dropping \<open>prefixLen\<close> bytes, as \<open>ForEachKey\<close>, \<open>AllKeysChan\<close> and \<open>doCopy\<close>
  do, gives the multihash back. This holds for every multihash, supported or not.
\<close>

theorem key_codec_roundtrip:
  assumes "prefix_ok w"
  shows "fst (PooledStorageKey w c) = (prefix w @ b32_encode (Hash c), True) \<and>
         StorageKey w dst c = prefix w @ b32_encode (Hash c) \<and>
         b32_decode (strip_prefix w (fst (fst (PooledStorageKey w c)))) = Inr (Hash c) \<and>
         b32_decode (drop (prefixLen w) (fst (fst (PooledStorageKey w c)))) = Inr (Hash c)"
  using assms
  by (auto simp: PooledStorageKey_eq StorageKey_eq strip_prefix_def b32_roundtrip prefix_ok_def)

lemma store_ns_ok: "Open open_ok [] [] \<lparr>Dir = ''/tmp/bs'', ReadOnly = False, Prefix = ns\<rparr> = Inr store_ns"
  by (simp add: Open_def open_ok_def badger_Open_def openJournal_def store0_def store_ns_def ns_def)

theorem key_codec_roundtrip_witness:
  "prefix_ok store_ns \<and>
   fst (PooledStorageKey store_ns cid_sha) = (ns @ b32_encode mh_sha, True) \<and>
   StorageKey store_ns ([], 0) cid_sha = ns @ b32_encode mh_sha \<and>
   b32_decode (strip_prefix store_ns (fst (fst (PooledStorageKey store_ns cid_sha)))) = Inr mh_sha"
proof -
  have ok: "prefix_ok store_ns"
    by (simp add: prefix_ok_def store_ns_def ns_def)
  have p: "prefix store_ns = ns"
    by (simp add: store_ns_def)
  show ?thesis
    using ok key_codec_roundtrip [OF ok, of cid_sha "([], 0)"]
    by (auto simp: cid_sha_def p)
qed

lemma key_sha_value:
  "b32_encode mh_sha = map (of_nat \<circ> of_char) ''CIQBCEIRCEIRCEIRCEIRCEIRCEIRCEIRCEIRCEIRCEIRCEIRCEIRCEI''"
  by code_simp

section \<open>Writes\<close>

lemma PooledStorageKey_split:
  "PooledStorageKey w c = ((storage_key w c, True), pool_Get w)"
  by (simp add: storage_key_def PooledStorageKey_def Let_def)

lemma storage_key_cong:
  "prefixing w' = prefixing w \<Longrightarrow> prefix w' = prefix w \<Longrightarrow> prefixLen w' = prefixLen w \<Longrightarrow>
     storage_key w' c = storage_key w c"
  by (simp add: storage_key_def PooledStorageKey_def Let_def)

lemma storage_key_pool_Get: "storage_key (pool_Get w) c = storage_key w c"
  by (rule storage_key_cong) (simp_all add: pool_Get_def)

lemma keys_loop_eq:
  "keys_loop w blocks tr =
     (map (\<lambda>b. storage_key w (Cid b)) blocks,
      tr @ map (\<lambda>b. storage_key w (Cid b)) blocks,
      w\<lparr>pool_out := pool_out w + int (length blocks)\<rparr>)"
proof (induction blocks arbitrary: w tr)
  case Nil
  show ?case by simp
next
  case (Cons b bs)
  have k: "\<And>c. storage_key (pool_Get w) c = storage_key w c"
    by (rule storage_key_pool_Get)
  show ?case
    by (simp add: PooledStorageKey_split Cons k) (simp add: pool_Get_def)
qed

lemma view_loop_present:
  "list_all (\<lambda>k. k \<noteq> [] \<and> map_of (kv d) k \<noteq> None) ks \<Longrightarrow> length ks = length blks \<Longrightarrow>
     view_loop (\<lambda>i. False) d i blks ks = Inr (replicate (length blks) None, [])"
proof (induction blks arbitrary: ks i)
  case Nil
  then show ?case by simp
next
  case (Cons b bs)
  then obtain k ks' where ks: "ks = k # ks'" by (cases ks) auto
  with Cons.prems obtain v where v: "map_of (kv d) k = Some v" and k: "k \<noteq> []" by auto
  have "view_loop (\<lambda>i. False) d (Suc i) bs ks' = Inr (replicate (length bs) None, [])"
    using Cons.prems ks by (intro Cons.IH) auto
  then show ?case
    using ks v k by (simp add: badgerGet_def txn_Get_def)
qed

lemma set_loop_skipped:
  "set_loop serr i blks (replicate n None) batch = (None, batch)"
proof (induction n arbitrary: i blks)
  case 0
  show ?case by simp
next
  case (Suc n)
  then show ?case by (cases blks) simp_all
qed

lemma put_skipped:
  "\<not> flush_err io \<Longrightarrow> jwrite_err io = None \<Longrightarrow>
     put io blocks (replicate n None) [] d (Some j) = (None, d, Some j)"
  by (simp add: put_def set_loop_skipped batch_Flush_def apply_batch_def journal_Write_def)

lemma PutMany_all_present:
  assumes "state w = stateOpen" and "moveState w \<noteq> moveStateLock"
    and "all_present w blocks"
    and "\<forall>i. \<not> view_err io i"
    and "\<not> flush_err (wb io)" and "jwrite_err (wb io) = None"
    and "\<not> flush_err (wb_next io)" and "jwrite_err (wb_next io) = None"
    and "mhJournal w \<noteq> None" and "dbNext w \<noteq> None \<longrightarrow> mhJournalNext w \<noteq> None"
  shows "fst (PutMany io w blocks) = Inr () \<and>
         db (snd (PutMany io w blocks)) = db w \<and>
         mhJournal (snd (PutMany io w blocks)) = mhJournal w \<and>
         dbNext (snd (PutMany io w blocks)) = dbNext w \<and>
         mhJournalNext (snd (PutMany io w blocks)) = mhJournalNext w"
proof -
  let ?ks = "map (\<lambda>b. storage_key w (Cid b)) blocks"
  have p: "list_all (\<lambda>k. k \<noteq> [] \<and> map_of (kv (db w)) k \<noteq> None) ?ks"
    using assms(3) by (simp add: all_present_def list_all_iff)
  have ve: "view_err io = (\<lambda>i. False)"
    using assms(4) by auto
  have v: "view_loop (view_err io) (db w) 0 blocks ?ks = Inr (replicate (length blocks) None, [])"
    unfolding ve using p by (intro view_loop_present) auto
  obtain j where j: "mhJournal w = Some j" using assms(9) by auto
  have sk: "\<And>c a b. storage_key (w\<lparr>viewers := a, rlock := b\<rparr>) c = storage_key w c"
    by (rule storage_key_cong) simp_all
  show ?thesis
  proof (cases "dbNext w")
    case None
    then show ?thesis
      using assms(1,2,5,6) j v
      by (simp add: PutMany_def guarded_def access_def lockDB_def keys_loop_eq sk put_both_def
          put_skipped pool_Get_def pool_Put_def return_keys_def viewers_Done_def unlockDB_def)
  next
    case (Some dn)
    then obtain jn where jn: "mhJournalNext w = Some jn" using assms(10) by auto
    show ?thesis
      using assms(1,2,5,6,7,8) j jn Some v
      by (simp add: PutMany_def guarded_def access_def lockDB_def keys_loop_eq sk put_both_def
          put_skipped pool_Get_def pool_Put_def return_keys_def viewers_Done_def unlockDB_def)
  qed
qed

lemma set_loop_success:
  "set_loop serr i blks ks acc = (None, batch) \<Longrightarrow> batch = acc @ batch_entries blks ks"
proof (induction serr i blks ks acc rule: set_loop.induct)
  case (1 serr i blk blks k ks batch')
  then show ?case
    by (cases k) (auto simp: batch_entries_def split: if_splits)
qed (auto simp: batch_entries_def)


lemma view_loop_success:
  "length ks = length blks \<Longrightarrow> view_loop gerr d i blks ks = Inr (keys', jrnl) \<Longrightarrow>
     keys' = absent_keys d ks \<and> jrnl = journal_buffer d blks ks \<and>
     (\<forall>(b, k) \<in> set (zip blks ks). k \<noteq> [] \<and>
        (map_of (kv d) k = None \<longrightarrow> (\<exists>smh. isMultihashSupported (Hash (Cid b)) = Inr smh)))"
proof (induction ks blks arbitrary: i keys' jrnl rule: list_induct2)
  case Nil
  then show ?case by (simp add: absent_keys_def journal_buffer_def)
next
  case (Cons k ks blk blks)
  from Cons.prems have k: "k \<noteq> []"
    by (auto simp: badgerGet_def txn_Get_def split: if_splits)
  from Cons.prems k have g: "\<not> gerr i"
    by (auto simp: badgerGet_def txn_Get_def split: if_splits)
  show ?case
  proof (cases "map_of (kv d) k")
    case None
    from Cons.prems None k g obtain smh keys2 jrnl2 where
      smh: "isMultihashSupported (Hash (Cid blk)) = Inr smh" and
      r: "view_loop gerr d (Suc i) blks ks = Inr (keys2, jrnl2)" and
      k2: "keys' = Some k # keys2" and
      j2: "jrnl = journalShortCode smh #
                  drop (length (Hash (Cid blk)) - supportedHashLen) (Hash (Cid blk)) @ jrnl2"
      by (auto simp: badgerGet_def txn_Get_def Let_def split: sum.splits)
    show ?thesis
      using Cons.IH [OF r] k2 j2 None smh k
      by (simp add: absent_keys_def journal_buffer_def journal_record_def)
  next
    case (Some v)
    from Cons.prems Some k g obtain keys2 where
      r: "view_loop gerr d (Suc i) blks ks = Inr (keys2, jrnl)" and
      k2: "keys' = None # keys2"
      by (auto simp: badgerGet_def txn_Get_def Let_def split: sum.splits)
    show ?thesis
      using Cons.IH [OF r] k2 Some k
      by (simp add: absent_keys_def journal_buffer_def)
  qed
qed

lemma put_both_frame:
  "stores w1 = stores w \<Longrightarrow>
     fst (put_both io b k j w1) = fst (put_both io b k j w) \<and>
     stores (snd (put_both io b k j w1)) = stores (snd (put_both io b k j w))"
  by (simp add: put_both_def stores_def Let_def split: prod.splits option.splits)

lemma put_both_control: "control (snd (put_both io b k j w)) = control w"
  by (simp add: put_both_def control_def Let_def split: prod.splits option.splits)


lemma PutMany_open:
  assumes "state w = stateOpen" and "lockDB w \<noteq> None"
  shows "fst (PutMany io w blocks) =
           (case view_loop (view_err io) (db w) 0 blocks (map (\<lambda>b. storage_key w (Cid b)) blocks) of
              Inl e \<Rightarrow> Inl e
            | Inr (keys', jrnl) \<Rightarrow> fst (put_both io blocks keys' jrnl w))"
    and "stores (snd (PutMany io w blocks)) =
           (case view_loop (view_err io) (db w) 0 blocks (map (\<lambda>b. storage_key w (Cid b)) blocks) of
              Inl e \<Rightarrow> stores w
            | Inr (keys', jrnl) \<Rightarrow> stores (snd (put_both io blocks keys' jrnl w)))"
    and "control (snd (PutMany io w blocks)) = control w"
    and "pool_out (snd (PutMany io w blocks)) =
           pool_out w + (if prefixing w then 0 else int (length blocks))"
proof -
  let ?w2 = "w\<lparr>viewers := viewers w + 1, rlock := rlock w + 1\<rparr>"
  let ?w3 = "w\<lparr>viewers := viewers w + 1, rlock := rlock w + 1,
                 pool_out := pool_out w + int (length blocks)\<rparr>"
  let ?ks = "map (\<lambda>b. storage_key w (Cid b)) blocks"
  have sk: "\<And>c. storage_key ?w2 c = storage_key w c"
    by (rule storage_key_cong) simp_all
  have st: "stores (pool_Get ?w3) = stores w"
    by (simp add: stores_def pool_Get_def)
  have l: "lockDB (w\<lparr>viewers := viewers w + 1\<rparr>) = Some ?w2"
    using assms(2) by (auto simp: lockDB_def split: if_splits)
  have unf: "PutMany io w blocks =
      (case (case view_loop (view_err io) (db w) 0 blocks ?ks of
               Inl e \<Rightarrow> (Inl e, pool_Get ?w3)
             | Inr (keys', jrnl) \<Rightarrow> put_both io blocks keys' jrnl (pool_Get ?w3)) of
         (r, w4) \<Rightarrow> (r, viewers_Done (unlockDB (return_keys ?ks (pool_Put w4)))))"
    using assms(1)
    by (auto simp: PutMany_def guarded_def access_def l keys_loop_eq sk
        split: sum.splits prod.splits)
  have fin: "\<And>w4. stores (viewers_Done (unlockDB (return_keys ?ks (pool_Put w4)))) = stores w4"
    by (simp add: stores_def viewers_Done_def unlockDB_def return_keys_def pool_Put_def)
  have c3: "control (pool_Get ?w3) =
      (state w, viewers w + 1, moveState w, rlock w + 1, prefixing w, prefix w, prefixLen w)"
    by (simp add: control_def pool_Get_def)
  have cfin: "\<And>w4. control w4 =
        (state w, viewers w + 1, moveState w, rlock w + 1, prefixing w, prefix w, prefixLen w) \<Longrightarrow>
      control (viewers_Done (unlockDB (return_keys ?ks (pool_Put w4)))) = control w"
    by (simp add: control_def viewers_Done_def unlockDB_def return_keys_def pool_Put_def)
  have pb: "\<And>k j w1. pool_out (snd (put_both io blocks k j w1)) = pool_out w1 \<and>
                       prefixing (snd (put_both io blocks k j w1)) = prefixing w1"
    by (simp add: put_both_def Let_def split: prod.splits option.splits)
  have pfin: "\<And>w4. pool_out w4 = pool_out w + int (length blocks) + 1 \<Longrightarrow>
       prefixing w4 = prefixing w \<Longrightarrow>
       pool_out (viewers_Done (unlockDB (return_keys ?ks (pool_Put w4)))) =
         pool_out w + (if prefixing w then 0 else int (length blocks))"
    by (simp add: viewers_Done_def unlockDB_def return_keys_def pool_Put_def)
  have p3: "pool_out (pool_Get ?w3) = pool_out w + int (length blocks) + 1"
       "prefixing (pool_Get ?w3) = prefixing w"
    by (simp_all add: pool_Get_def)
  show "fst (PutMany io w blocks) =
           (case view_loop (view_err io) (db w) 0 blocks ?ks of
              Inl e \<Rightarrow> Inl e
            | Inr (keys', jrnl) \<Rightarrow> fst (put_both io blocks keys' jrnl w))"
    unfolding unf
    by (cases "view_loop (view_err io) (db w) 0 blocks ?ks")
       (auto simp: split_beta put_both_frame [OF st])
  show "stores (snd (PutMany io w blocks)) =
           (case view_loop (view_err io) (db w) 0 blocks ?ks of
              Inl e \<Rightarrow> stores w
            | Inr (keys', jrnl) \<Rightarrow> stores (snd (put_both io blocks keys' jrnl w)))"
    unfolding unf
    by (cases "view_loop (view_err io) (db w) 0 blocks ?ks")
       (auto simp: split_beta fin st put_both_frame [OF st])
  show "control (snd (PutMany io w blocks)) = control w"
    unfolding unf
    by (cases "view_loop (view_err io) (db w) 0 blocks ?ks")
       (auto simp: split_beta cfin c3 put_both_control)
  show "pool_out (snd (PutMany io w blocks)) =
           pool_out w + (if prefixing w then 0 else int (length blocks))"
    unfolding unf
    by (cases "view_loop (view_err io) (db w) 0 blocks ?ks")
       (auto simp: split_beta pfin p3 pb)
qed



section \<open>Re-putting a stored block\<close>

lemma storage_key_eq: "prefix_ok w \<Longrightarrow> storage_key w c = prefix w @ b32_encode (Hash c)"
  by (simp add: storage_key_def PooledStorageKey_eq)

lemma b32_encode_Nil_iff: "b32_encode h = [] \<longleftrightarrow> h = []"
proof -
  have "length (b32_encode h) = 0 \<longleftrightarrow> length h = 0"
    unfolding length_b32_encode EncodedLen_def by (cases "length h") auto
  then show ?thesis by simp
qed

lemma mh_sha_supported:
  "isMultihashSupported mh_sha = Inr \<lparr>cidMaker = (Raw, Sha2_256), journalShortCode = 0\<rparr>"
  by code_simp


lemma mh_sha_nonempty: "mh_sha \<noteq> []"
  by (simp add: mh_sha_def)

lemma prefix_ok_store0: "prefix_ok store0"
  by (simp add: prefix_ok_def store0_def)

lemma prefix_ok_store_hello: "prefix_ok store_hello"
  by (simp add: prefix_ok_def store_hello_def store0_def)

lemma key_store0: "storage_key store0 cid_sha = b32_encode mh_sha"
  by (simp add: storage_key_eq prefix_ok_store0 cid_sha_def) (simp add: store0_def)

lemma key_store_hello: "storage_key store_hello cid_sha = b32_encode mh_sha"
  by (simp add: storage_key_eq prefix_ok_store_hello cid_sha_def) (simp add: store_hello_def store0_def)

lemma key_sha_nonempty: "b32_encode mh_sha \<noteq> []"
  by (simp add: b32_encode_Nil_iff mh_sha_nonempty)

lemma hello_differs: "hello \<noteq> world'"
  by (simp add: hello_def world'_def)

lemma put_ok_simps:
  "view_err put_ok = (\<lambda>i. False)" "flush_err (wb put_ok) = False" "jwrite_err (wb put_ok) = None"
  "flush_err (wb_next put_ok) = False" "jwrite_err (wb_next put_ok) = None"
  "set_err (wb put_ok) = (\<lambda>i. False)" "set_err (wb_next put_ok) = (\<lambda>i. False)"
  by (simp_all add: put_ok_def wb_ok_def)

lemma store_hello_simps:
  "state store_hello = stateOpen" "moveState store_hello = moveStateNone"
  "mhJournal store_hello = Some \<lparr>j_dir = ''/tmp/bs'', j_data = []\<rparr>" "dbNext store_hello = None"
  "kv (db store_hello) = [(b32_encode mh_sha, hello)]" "rlock store_hello = 0"
  by (simp_all add: store_hello_def store0_def)

lemma all_present_store_hello: "all_present store_hello [\<lparr>Cid = cid_sha, RawData = world'\<rparr>]"
  by (simp add: all_present_def key_store_hello key_sha_nonempty store_hello_simps)

text \<open>
  C4, as the code has it: a block whose key the store already holds is skipped. The
  put returns nil, appends nothing to the journal and writes nothing to the store, so the
  entry keeps the bytes it had; the same holds for the shadow store during a move. This
  is for a store opened writable (it has a journal) and an engine that reports no error.
\<close>

theorem reput_is_noop:
  assumes "state w = stateOpen" and "moveState w \<noteq> moveStateLock"
    and "all_present w blocks"
    and "\<forall>i. \<not> view_err io i"
    and "\<not> flush_err (wb io)" and "jwrite_err (wb io) = None"
    and "\<not> flush_err (wb_next io)" and "jwrite_err (wb_next io) = None"
    and "mhJournal w \<noteq> None" and "dbNext w \<noteq> None \<longrightarrow> mhJournalNext w \<noteq> None"
  shows "fst (PutMany io w blocks) = Inr () \<and>
         db (snd (PutMany io w blocks)) = db w \<and>
         mhJournal (snd (PutMany io w blocks)) = mhJournal w \<and>
         dbNext (snd (PutMany io w blocks)) = dbNext w \<and>
         mhJournalNext (snd (PutMany io w blocks)) = mhJournalNext w"
  using assms by (rule PutMany_all_present)

theorem reput_is_noop_witness:
  "all_present store_hello [\<lparr>Cid = cid_sha, RawData = world'\<rparr>] \<and>
   fst (PutMany put_ok store_hello [\<lparr>Cid = cid_sha, RawData = world'\<rparr>]) = Inr () \<and>
   db (snd (PutMany put_ok store_hello [\<lparr>Cid = cid_sha, RawData = world'\<rparr>])) = db store_hello \<and>
   mhJournal (snd (PutMany put_ok store_hello [\<lparr>Cid = cid_sha, RawData = world'\<rparr>]))
     = mhJournal store_hello"
  using reput_is_noop [of store_hello "[\<lparr>Cid = cid_sha, RawData = world'\<rparr>]" put_ok]
    all_present_store_hello
  by (simp add: put_ok_simps store_hello_simps)

theorem reput_overwrite_counterexample:
  "fst (PutMany put_ok store_hello [\<lparr>Cid = cid_sha, RawData = world'\<rparr>]) = Inr () \<and>
   map_of (kv (db (snd (PutMany put_ok store_hello [\<lparr>Cid = cid_sha, RawData = world'\<rparr>]))))
     (storage_key store_hello cid_sha) = Some hello \<and>
   hello \<noteq> world'"
  using PutMany_all_present [of store_hello "[\<lparr>Cid = cid_sha, RawData = world'\<rparr>]" put_ok]
    all_present_store_hello hello_differs
  by (simp add: put_ok_simps store_hello_simps key_store_hello)

section \<open>Putting and reading back\<close>

lemma control_fields:
  "control w' = control w \<Longrightarrow>
     state w' = state w \<and> viewers w' = viewers w \<and> moveState w' = moveState w \<and>
     rlock w' = rlock w \<and> prefixing w' = prefixing w \<and> prefix w' = prefix w \<and>
     prefixLen w' = prefixLen w"
  by (simp add: control_def)








lemma store0_simps:
  "state store0 = stateOpen" "moveState store0 = moveStateNone"
  "mhJournal store0 = Some \<lparr>j_dir = ''/tmp/bs'', j_data = []\<rparr>" "dbNext store0 = None"
  "kv (db store0) = []" "rlock store0 = 0" "pool_out store0 = 0" "prefixing store0 = False"
  by (simp_all add: store0_def)

lemma lockDB_store0: "lockDB store0 \<noteq> None"
  by (simp add: lockDB_def store0_simps)




section \<open>Digest policy and unsupported blocks\<close>

lemma Decode_length: "Decode mh = Inr dm \<Longrightarrow> Length dm \<le> length mh"
  by (auto simp: Decode_def split: if_splits sum.splits prod.splits)

lemma unsupported_digest_fails:
  "unsupported_digest mh \<Longrightarrow> \<exists>e. isMultihashSupported mh = Inl e"
  using Decode_length [of mh]
  by (auto simp: unsupported_digest_def mh_prefix_def isMultihashSupported_def
      split: sum.splits option.splits)

lemma unsupported_not_supported: "unsupported_digest mh \<Longrightarrow> \<not> supported mh"
  using unsupported_digest_fails [of mh] by (auto simp: supported_def)

lemma Decode_sha: "length d = 32 \<Longrightarrow> \<exists>dm. Decode ([0x12, 0x20] @ d) = Inr dm \<and> Length dm = 32"
  by (simp add: Decode_def FromUvarint_def)

lemma Decode_blake:
  "length d = 32 \<Longrightarrow> \<exists>dm. Decode ([0xA0, 0xE4, 0x02, 0x20] @ d) = Inr dm \<and> Length dm = 32"
  by (simp add: Decode_def FromUvarint_def)

lemma supported_iff: "supported mh \<longleftrightarrow> \<not> unsupported_digest mh"
proof
  assume "supported mh"
  then show "\<not> unsupported_digest mh"
    using unsupported_not_supported by blast
next
  assume n: "\<not> unsupported_digest mh"
  let ?p = "take (length mh - 32) mh" and ?d = "drop (length mh - 32) mh"
  have len: "32 \<le> length mh" and tab: "supportedMultihashes ?p \<noteq> None"
    using n by (simp_all add: unsupported_digest_def mh_prefix_def supportedHashLen_def)
  have d: "length ?d = 32" using len by simp
  have mh: "mh = ?p @ ?d" by simp
  from tab consider "?p = [0xA0, 0xE4, 0x02, 0x20]" | "?p = [0x12, 0x20]"
    by (auto simp: supportedMultihashes_def split: if_splits)
  then have "\<exists>dm. Decode mh = Inr dm \<and> Length dm = 32"
  proof cases
    case 1
    then show ?thesis using Decode_blake [OF d] mh by metis
  next
    case 2
    then show ?thesis using Decode_sha [OF d] mh by metis
  qed
  then show "supported mh"
    using tab by (auto simp: supported_def isMultihashSupported_def supportedHashLen_def)
qed








section \<open>Journal and flush order\<close>

lemma put_journal_changed:
  assumes "put io blocks keys jrnl d mhj = (e, d', mhj')" and "mhj' \<noteq> mhj"
  shows "\<not> flush_err io \<and> d' = batch_Flush (batch_entries blocks keys) d"
proof -
  obtain e0 batch where sl: "set_loop (set_err io) 0 blocks keys [] = (e0, batch)"
    by (cases "set_loop (set_err io) 0 blocks keys []") auto
  have e0: "e0 = None"
    using assms sl by (cases e0) (auto simp: put_def)
  have b: "batch = batch_entries blocks keys"
    using set_loop_success [of "set_err io" 0 blocks keys "[]" batch] sl e0 by simp
  show ?thesis
    using assms sl e0 b
    by (auto simp: put_def split: if_splits option.splits prod.splits)
qed

lemma put_flush_err: "flush_err io \<Longrightarrow> snd (snd (put io blocks keys jrnl d mhj)) = mhj"
  by (cases "set_loop (set_err io) 0 blocks keys []")
     (auto simp: put_def split: option.splits)

lemma apply_batch_Cons: "apply_batch (x # xs) al = apply_batch xs (apply_entry x al)"
  by (simp add: apply_batch_def)

lemma apply_batch_keeps:
  "\<forall>x \<in> set batch. \<exists>k v. x = WSet k v \<Longrightarrow> map_of al k \<noteq> None \<Longrightarrow>
     map_of (apply_batch batch al) k \<noteq> None"
proof (induction batch arbitrary: al)
  case Nil
  then show ?case by (simp add: apply_batch_def)
next
  case (Cons x xs)
  then obtain k' v' where x: "x = WSet k' v'" by auto
  have "map_of (apply_entry x al) k \<noteq> None"
    using Cons.prems(2) x by (simp add: update_conv')
  then show ?case
    using Cons.IH Cons.prems(1) by (simp add: apply_batch_Cons)
qed

lemma apply_batch_sets:
  "\<forall>x \<in> set batch. \<exists>k v. x = WSet k v \<Longrightarrow> WSet k v \<in> set batch \<Longrightarrow>
     map_of (apply_batch batch al) k \<noteq> None"
proof (induction batch arbitrary: al)
  case Nil
  then show ?case by simp
next
  case (Cons x xs)
  show ?case
  proof (cases "x = WSet k v")
    case True
    have "map_of (apply_entry x al) k \<noteq> None"
      using True by (simp add: update_conv')
    then show ?thesis
      using apply_batch_keeps [of xs "apply_entry x al" k] Cons.prems(1)
      by (simp add: apply_batch_Cons)
  next
    case False
    then show ?thesis
      using Cons by (simp add: apply_batch_Cons)
  qed
qed

lemma batch_entries_sets: "\<forall>x \<in> set (batch_entries blocks keys). \<exists>k v. x = WSet k v"
  by (auto simp: batch_entries_def split: option.splits)

lemma batch_entries_absent:
  "b \<in> set blocks \<Longrightarrow> map_of (kv d) (f b) = None \<Longrightarrow>
     WSet (f b) (RawData b) \<in> set (batch_entries blocks (absent_keys d (map f blocks)))"
  by (induction blocks) (auto simp: batch_entries_def absent_keys_def)

lemma flushed_present:
  assumes "b \<in> set blocks"
    and "map_of (kv d) (f b) = None \<or> map_of (kv d0) (f b) \<noteq> None"
  shows "map_of (kv (batch_Flush (batch_entries blocks (absent_keys d (map f blocks))) d0)) (f b)
           \<noteq> None"
proof (cases "map_of (kv d) (f b) = None")
  case True
  show ?thesis
    using apply_batch_sets [OF batch_entries_sets
        batch_entries_absent [of b blocks d f, OF assms(1) True]]
    by (simp add: batch_Flush_def)
next
  case False
  then have "map_of (kv d0) (f b) \<noteq> None" using assms(2) by auto
  then show ?thesis
    using apply_batch_keeps [OF batch_entries_sets] by (simp add: batch_Flush_def)
qed

lemma put_both_cases:
  "\<exists>e1 d1 j1. put (wb io) b k j (db w) (mhJournal w) = (e1, d1, j1) \<and>
     db (snd (put_both io b k j w)) = d1 \<and> mhJournal (snd (put_both io b k j w)) = j1 \<and>
     (mhJournalNext (snd (put_both io b k j w)) \<noteq> mhJournalNext w \<longrightarrow>
        e1 = None \<and>
        (\<exists>dn e2 d2 j2. dbNext w = Some dn \<and>
           put (wb_next io) b k j dn (mhJournalNext w) = (e2, d2, j2) \<and>
           dbNext (snd (put_both io b k j w)) = Some d2 \<and>
           mhJournalNext (snd (put_both io b k j w)) = j2))"
  by (auto simp: put_both_def Let_def split: prod.splits option.splits)

lemma PutMany_not_entered:
  "state w \<noteq> stateOpen \<or> lockDB w = None \<Longrightarrow> stores (snd (PutMany io w blocks)) = stores w"
  by (auto simp: PutMany_def guarded_def access_def lockDB_def stores_def split: if_splits)

lemma PutMany_journals:
  fixes io w blocks
  defines "w' \<equiv> snd (PutMany io w blocks)"
  shows "flush_err (wb io) \<Longrightarrow> mhJournal w' = mhJournal w \<and> mhJournalNext w' = mhJournalNext w"
    and "flush_err (wb_next io) \<Longrightarrow> mhJournalNext w' = mhJournalNext w"
    and "mhJournal w' \<noteq> mhJournal w \<Longrightarrow> b \<in> set blocks \<Longrightarrow>
           map_of (kv (db w')) (storage_key w (Cid b)) \<noteq> None"
    and "mhJournalNext w' \<noteq> mhJournalNext w \<Longrightarrow>
           \<exists>dn'. dbNext w' = Some dn' \<and>
             (\<forall>b \<in> set blocks. map_of (kv (db w)) (storage_key w (Cid b)) = None \<longrightarrow>
                map_of (kv dn') (storage_key w (Cid b)) \<noteq> None)"
proof -
  let ?ks = "map (\<lambda>b. storage_key w (Cid b)) blocks"
  let ?vl = "view_loop (view_err io) (db w) 0 blocks ?ks"
  have unchanged: "stores w' = stores w" if "\<not> (state w = stateOpen \<and> lockDB w \<noteq> None)"
    using that PutMany_not_entered [of w io blocks] by (auto simp: w'_def)
  have failed: "stores w' = stores w" if "state w = stateOpen" "lockDB w \<noteq> None" "?vl = Inl e" for e
    using PutMany_open(2) [OF that(1,2), of io blocks] that(3) by (simp add: w'_def)
  have entered: "stores w' = stores (snd (put_both io blocks keys' jrnl w)) \<and>
                 keys' = absent_keys (db w) ?ks"
    if "state w = stateOpen" "lockDB w \<noteq> None" "?vl = Inr (keys', jrnl)" for keys' jrnl
    using PutMany_open(2) [OF that(1,2), of io blocks] that(3) view_loop_success [OF _ that(3)]
    by (simp add: w'_def)
  consider (out) "\<not> (state w = stateOpen \<and> lockDB w \<noteq> None)"
    | (err) e where "state w = stateOpen" "lockDB w \<noteq> None" "?vl = Inl e"
    | (run) keys' jrnl where "state w = stateOpen" "lockDB w \<noteq> None" "?vl = Inr (keys', jrnl)"
    by atomize_elim (cases ?vl, auto)
  note cases3 = this
  show "flush_err (wb io) \<Longrightarrow> mhJournal w' = mhJournal w \<and> mhJournalNext w' = mhJournalNext w"
  proof -
    assume f: "flush_err (wb io)"
    from cases3 show ?thesis
    proof cases
      case out
      then show ?thesis using unchanged by (simp add: stores_def)
    next
      case err
      then show ?thesis using failed by (simp add: stores_def)
    next
      case run
      obtain e1 d1 j1 where p: "put (wb io) blocks keys' jrnl (db w) (mhJournal w) = (e1, d1, j1)"
        and j: "mhJournal (snd (put_both io blocks keys' jrnl w)) = j1"
        and n: "mhJournalNext (snd (put_both io blocks keys' jrnl w)) \<noteq> mhJournalNext w
                  \<longrightarrow> e1 = None"
        using put_both_cases [of io blocks keys' jrnl w] by auto
      have j1: "j1 = mhJournal w"
        using put_flush_err [OF f, of blocks keys' jrnl "db w" "mhJournal w"] p by simp
      have "e1 \<noteq> None"
        using p f by (cases "set_loop (set_err (wb io)) 0 blocks keys' []")
          (auto simp: put_def split: option.splits)
      then show ?thesis
        using entered [OF run] j j1 n by (auto simp: stores_def)
    qed
  qed
  show "flush_err (wb_next io) \<Longrightarrow> mhJournalNext w' = mhJournalNext w"
  proof -
    assume f: "flush_err (wb_next io)"
    from cases3 show ?thesis
    proof cases
      case out
      then show ?thesis using unchanged by (simp add: stores_def)
    next
      case err
      then show ?thesis using failed by (simp add: stores_def)
    next
      case run
      show ?thesis
      proof (rule ccontr)
        assume "mhJournalNext w' \<noteq> mhJournalNext w"
        then have "mhJournalNext (snd (put_both io blocks keys' jrnl w)) \<noteq> mhJournalNext w"
          using entered [OF run] by (simp add: stores_def)
        then obtain dn e2 d2 j2 where
          "put (wb_next io) blocks keys' jrnl dn (mhJournalNext w) = (e2, d2, j2)"
          "mhJournalNext (snd (put_both io blocks keys' jrnl w)) = j2" "j2 \<noteq> mhJournalNext w"
          using put_both_cases [of io blocks keys' jrnl w] by auto
        then show False
          using put_flush_err [OF f, of blocks keys' jrnl dn "mhJournalNext w"] by simp
      qed
    qed
  qed
  show "mhJournal w' \<noteq> mhJournal w \<Longrightarrow> b \<in> set blocks \<Longrightarrow>
           map_of (kv (db w')) (storage_key w (Cid b)) \<noteq> None"
  proof -
    assume ch: "mhJournal w' \<noteq> mhJournal w" and b: "b \<in> set blocks"
    from cases3 show ?thesis
    proof cases
      case out
      then show ?thesis using unchanged ch by (simp add: stores_def)
    next
      case err
      then show ?thesis using failed ch by (simp add: stores_def)
    next
      case run
      obtain e1 d1 j1 where p: "put (wb io) blocks keys' jrnl (db w) (mhJournal w) = (e1, d1, j1)"
        and d: "db (snd (put_both io blocks keys' jrnl w)) = d1"
        and j: "mhJournal (snd (put_both io blocks keys' jrnl w)) = j1"
        using put_both_cases [of io blocks keys' jrnl w] by auto
      have "j1 \<noteq> mhJournal w"
        using entered [OF run] j ch by (simp add: stores_def)
      then have d1: "d1 = batch_Flush (batch_entries blocks keys') (db w)"
        using put_journal_changed [OF p] by simp
      have "map_of (kv (batch_Flush (batch_entries blocks (absent_keys (db w) ?ks)) (db w)))
              (storage_key w (Cid b)) \<noteq> None"
        by (rule flushed_present [OF b, where f = "\<lambda>b. storage_key w (Cid b)"]) auto
      then have "map_of (kv d1) (storage_key w (Cid b)) \<noteq> None"
        using d1 entered [OF run] by simp
      then show ?thesis
        using entered [OF run] d by (simp add: stores_def)
    qed
  qed
  show "mhJournalNext w' \<noteq> mhJournalNext w \<Longrightarrow>
           \<exists>dn'. dbNext w' = Some dn' \<and>
             (\<forall>b \<in> set blocks. map_of (kv (db w)) (storage_key w (Cid b)) = None \<longrightarrow>
                map_of (kv dn') (storage_key w (Cid b)) \<noteq> None)"
  proof -
    assume ch: "mhJournalNext w' \<noteq> mhJournalNext w"
    from cases3 show ?thesis
    proof cases
      case out
      then show ?thesis using unchanged ch by (simp add: stores_def)
    next
      case err
      then show ?thesis using failed ch by (simp add: stores_def)
    next
      case run
      have "mhJournalNext (snd (put_both io blocks keys' jrnl w)) \<noteq> mhJournalNext w"
        using entered [OF run] ch by (simp add: stores_def)
      then obtain dn e2 d2 j2 where
        p: "put (wb_next io) blocks keys' jrnl dn (mhJournalNext w) = (e2, d2, j2)" and
        d: "dbNext (snd (put_both io blocks keys' jrnl w)) = Some d2" and
        j: "mhJournalNext (snd (put_both io blocks keys' jrnl w)) = j2" "j2 \<noteq> mhJournalNext w"
        using put_both_cases [of io blocks keys' jrnl w] by auto
      have d2: "d2 = batch_Flush (batch_entries blocks keys') dn"
        using put_journal_changed [OF p j(2)] by simp
      have "map_of (kv (batch_Flush (batch_entries blocks (absent_keys (db w) ?ks)) dn))
              (storage_key w (Cid b)) \<noteq> None"
        if "b \<in> set blocks" "map_of (kv (db w)) (storage_key w (Cid b)) = None" for b
        by (rule flushed_present [OF that(1), where f = "\<lambda>b. storage_key w (Cid b)"])
           (simp add: that(2))
      then have "\<forall>b \<in> set blocks. map_of (kv (db w)) (storage_key w (Cid b)) = None \<longrightarrow>
                map_of (kv d2) (storage_key w (Cid b)) \<noteq> None"
        using entered [OF run] d2 by simp
      then show ?thesis
        using entered [OF run] d by (simp add: stores_def)
    qed
  qed
qed

text \<open>
  C6: in \<open>PutMany\<close> a journal is written only after the write batch of its store has
  been flushed. When the flush of the active store fails neither journal is written,
  when the flush of the shadow store fails the shadow journal is not written; and when
  a journal has been written, its store holds an entry for every block of the batch
  (for the shadow store: every block the active store did not hold before).
\<close>

theorem journal_follows_flush:
  fixes io w blocks
  defines "w' \<equiv> snd (PutMany io w blocks)"
  shows "(flush_err (wb io) \<longrightarrow> mhJournal w' = mhJournal w \<and> mhJournalNext w' = mhJournalNext w) \<and>
         (flush_err (wb_next io) \<longrightarrow> mhJournalNext w' = mhJournalNext w) \<and>
         (mhJournal w' \<noteq> mhJournal w \<longrightarrow>
            (\<forall>b \<in> set blocks. map_of (kv (db w')) (storage_key w (Cid b)) \<noteq> None)) \<and>
         (mhJournalNext w' \<noteq> mhJournalNext w \<longrightarrow>
            (\<exists>dn'. dbNext w' = Some dn' \<and>
               (\<forall>b \<in> set blocks. map_of (kv (db w)) (storage_key w (Cid b)) = None \<longrightarrow>
                  map_of (kv dn') (storage_key w (Cid b)) \<noteq> None)))"
  unfolding w'_def
  using PutMany_journals(1) [of io w blocks] PutMany_journals(2) [of io w blocks]
    PutMany_journals(3) [of io w blocks] PutMany_journals(4) [of io w blocks]
  by blast

lemma PutMany_store0_stores:
  "stores (snd (PutMany put_ok store0 [\<lparr>Cid = cid_sha, RawData = hello\<rparr>])) =
     (\<lparr>db_dir = ''/tmp/bs'', kv = [(b32_encode mh_sha, hello)]\<rparr>,
      Some \<lparr>j_dir = ''/tmp/bs'', j_data = 0 # replicate 32 0x11\<rparr>, None, None)"
proof -
  have h: "Hash cid_sha = mh_sha" by (simp add: cid_sha_def)
  have d: "drop (length mh_sha - supportedHashLen) mh_sha = replicate 32 0x11"
    by (simp add: mh_sha_def supportedHashLen_def)
  show ?thesis
    by (simp add: PutMany_open(2) [OF store0_simps(1) lockDB_store0] key_store0 store0_simps
        put_ok_simps badgerGet_def txn_Get_def key_sha_nonempty h mh_sha_supported put_both_def
        put_def journal_Write_def d batch_Flush_def apply_batch_def)
       (simp add: stores_def store0_def)
qed

theorem journal_follows_flush_witness:
  "mhJournal (snd (PutMany put_ok store0 [\<lparr>Cid = cid_sha, RawData = hello\<rparr>]))
     = Some \<lparr>j_dir = ''/tmp/bs'', j_data = 0 # replicate 32 0x11\<rparr> \<and>
   mhJournal (snd (PutMany put_ok store0 [\<lparr>Cid = cid_sha, RawData = hello\<rparr>])) \<noteq> mhJournal store0 \<and>
   map_of (kv (db (snd (PutMany put_ok store0 [\<lparr>Cid = cid_sha, RawData = hello\<rparr>]))))
     (storage_key store0 cid_sha) \<noteq> None"
  using journal_follows_flush [of put_ok store0 "[\<lparr>Cid = cid_sha, RawData = hello\<rparr>]"]
    PutMany_store0_stores
  by (simp add: stores_def store0_simps)

section \<open>Writes while a move is underway\<close>

lemma delete_loop_result:
  "delete_loop serr w i cids tr batch = (e, tr', batch', w') \<Longrightarrow>
     stores w' = stores w \<and> control w' = control w \<and>
     (e = None \<longrightarrow> batch' = batch @ map (\<lambda>c. WDelete (storage_key w c)) cids)"
proof (induction cids arbitrary: w i tr batch)
  case Nil
  then show ?case by simp
next
  case (Cons c cs)
  have s: "stores (pool_Get w) = stores w" "control (pool_Get w) = control w"
    by (simp_all add: stores_def control_def pool_Get_def)
  have k: "\<And>c. storage_key (pool_Get w) c = storage_key w c"
    by (rule storage_key_pool_Get)
  show ?case
  proof (cases "storage_key w c = [] \<or> serr i")
    case True
    then show ?thesis
      using Cons.prems s by (auto simp: PooledStorageKey_split Let_def split: if_splits)
  next
    case False
    then have "delete_loop serr (pool_Get w) (Suc i) cs (tr @ [storage_key w c])
                 (batch @ [WDelete (storage_key w c)]) = (e, tr', batch', w')"
      using Cons.prems by (simp add: PooledStorageKey_split Let_def)
    from Cons.IH [OF this] show ?thesis
      using s k by simp
  qed
qed














section \<open>Resources on error paths\<close>

lemma movingGC_cancelled:
  "movingGC mgc_cancelled store_hello = (Some ErrContext, store_hello)"
  by (simp add: movingGC_def movingGC_body_def movingGC_deferred_def mgc_cancelled_def mgc_ok_def
      copy_ok_def del_ok_def store_hello_def store0_def EvalSymlinks_def badger_Open_def
      openJournal_def lockMove_def unlockMove_def doCopy_def stream_groups_def deleteDB_def
      key_sha_nonempty hello_def Let_def)

text \<open>
  C2 fails on the code: when the shadow store has been opened and opening its journal
  fails, \<open>movingGC\<close> returns the error with the move state back at \<open>moveStateNone\<close>, but
  the shadow store was never installed as \<open>dbNext\<close>, so the deferred function neither
  closes nor deletes it: its handle is still open and its directory still exists. When
  the copy is cancelled instead, the deferred function closes and deletes the shadow
  store and the state is as before the call.
\<close>

theorem movingGC_leaks_shadow:
  "fst (movingGC mgc_journal_fails store0) = Some ErrFilesystem \<and>
   moveState (snd (movingGC mgc_journal_fails store0)) = moveStateNone \<and>
   dbNext (snd (movingGC mgc_journal_fails store0)) = None \<and>
   open_dbs (snd (movingGC mgc_journal_fails store0)) = [''/tmp/bs.1'', ''/tmp/bs''] \<and>
   fs_dirs (snd (movingGC mgc_journal_fails store0)) = [''/tmp/bs.1'', ''/tmp/bs''] \<and>
   open_dbs store0 = [''/tmp/bs''] \<and> fs_dirs store0 = [''/tmp/bs''] \<and>
   movingGC mgc_cancelled store_hello = (Some ErrContext, store_hello)"
  using movingGC_cancelled
  by (simp add: movingGC_def movingGC_body_def movingGC_deferred_def mgc_journal_fails_def mgc_ok_def
      copy_ok_def del_ok_def store0_def EvalSymlinks_def badger_Open_def
      openJournal_def lockMove_def unlockMove_def Let_def)

text \<open>
  C9 fails on the code: \<open>PooledStorageKey\<close> always answers \<open>pooled = true\<close>, but
  \<open>PutMany\<close> and \<open>DeleteMany\<close> register the function that returns the keys only when
  \<open>prefixing\<close> is set. On a store without prefix a put or a delete of one block leaves
  one buffer outside the pool; \<open>Get\<close> on the same store, and \<open>PutMany\<close> on a store with
  a prefix, return what they took.
\<close>

theorem key_buffers_not_returned:
  "pool_out store0 = 0 \<and>
   pool_out (snd (PutMany put_ok store0 [\<lparr>Cid = cid_sha, RawData = hello\<rparr>])) = 1 \<and>
   pool_out (snd (DeleteMany wb_ok store0 [cid_sha])) = 1 \<and>
   pool_out (snd (Get rd_ok store0 cid_sha)) = 0 \<and>
   pool_out (snd (PutMany put_ok store_ns [\<lparr>Cid = cid_sha, RawData = hello\<rparr>])) = 0"
proof -
  have v: "viewers store0 = 0"
    by (simp add: store0_def)
  have l: "lockDB (store0\<lparr>viewers := 1\<rparr>) = Some (store0\<lparr>viewers := 1, rlock := 1\<rparr>)"
    by (simp add: lockDB_def store0_simps)
  have k: "storage_key (store0\<lparr>viewers := 1, rlock := 1\<rparr>) cid_sha = b32_encode mh_sha"
    using key_store0 storage_key_cong [of "store0\<lparr>viewers := 1, rlock := 1\<rparr>" store0 cid_sha]
    by simp
  have p: "pool_out (snd (PutMany put_ok store0 [\<lparr>Cid = cid_sha, RawData = hello\<rparr>])) = 1"
    by (simp add: PutMany_open(4) [OF store0_simps(1) lockDB_store0] store0_simps)
  have d: "pool_out (snd (DeleteMany wb_ok store0 [cid_sha])) = 1"
    by (simp add: DeleteMany_def guarded_def access_def store0_simps v l PooledStorageKey_split k
        key_sha_nonempty wb_ok_def return_keys_def pool_Get_def viewers_Done_def unlockDB_def)
  have g: "pool_out (snd (Get rd_ok store0 cid_sha)) = 0"
    by (simp add: Get_def guarded_def access_def store0_simps v l with_key_def PooledStorageKey_split
        k pool_Get_def pool_Put_def viewers_Done_def unlockDB_def cid_sha_def)
  have ns0: "state store_ns = stateOpen" "prefixing store_ns" "pool_out store_ns = 0"
    by (simp_all add: store_ns_def store0_def)
  have lns: "lockDB store_ns \<noteq> None"
    by (simp add: lockDB_def store_ns_def store0_def)
  have n: "pool_out (snd (PutMany put_ok store_ns [\<lparr>Cid = cid_sha, RawData = hello\<rparr>])) = 0"
    by (simp add: PutMany_open(4) [OF ns0(1) lns] ns0)
  show ?thesis
    using p d g n by (simp add: store0_simps)
qed

section \<open>Iteration over undecodable keys\<close>

lemma AllKeysChan_loop_quiet:
  "isOpen w \<Longrightarrow>
     AllKeysChan_loop iter_ok w i ks =
       (List.map_filter (key_cid w) ks,
        map (strip_prefix w) (filter (\<lambda>k. key_cid w k = None) ks))"
proof (induction ks arbitrary: i)
  case Nil
  show ?case by (simp add: map_filter_simps)
next
  case (Cons k ks)
  show ?case
    using Cons.prems Cons.IH [OF Cons.prems, of "Suc i"]
    by (cases "b32_decode (strip_prefix w k)")
       (simp_all add: iter_ok_def key_cid_def map_filter_simps Let_def)
qed

lemma ForEachKey_loop_quiet:
  "isOpen w \<Longrightarrow>
     ForEachKey_loop iter_ok (\<lambda>c. None) w i ks =
       ((case List.map_filter (key_err w) ks of [] \<Rightarrow> Inr () | e # es \<Rightarrow> Inl e),
        List.map_filter (key_cid w) (takeWhile (\<lambda>k. key_cid w k \<noteq> None) ks))"
proof (induction ks arbitrary: i)
  case Nil
  show ?case by (simp add: map_filter_simps)
next
  case (Cons k ks)
  show ?case
    using Cons.prems Cons.IH [OF Cons.prems, of "Suc i"]
    by (cases "b32_decode (strip_prefix w k)")
       (simp_all add: iter_ok_def key_cid_def key_err_def map_filter_simps Let_def)
qed

lemma iteration_cong:
  assumes "db w' = db w" and "prefixing w' = prefixing w" and "prefix w' = prefix w"
    and "prefixLen w' = prefixLen w" and "state w' = state w"
  shows "iter_keys w' = iter_keys w" and "strip_prefix w' = strip_prefix w"
    and "key_cid w' = key_cid w" and "key_err w' = key_err w" and "isOpen w' = isOpen w"
  using assms
  by (auto simp: iter_keys_def strip_prefix_def key_cid_def key_err_def isOpen_def fun_eq_iff)

lemma iteration_quiet:
  assumes "state w = stateOpen" and "moveState w \<noteq> moveStateLock"
  shows "fst (AllKeysChan iter_ok w) =
           Inr (List.map_filter (key_cid w) (iter_keys w),
                map (strip_prefix w) (filter (\<lambda>k. key_cid w k = None) (iter_keys w)))"
    and "fst (ForEachKey iter_ok w (\<lambda>c. None)) =
           ((case List.map_filter (key_err w) (iter_keys w) of [] \<Rightarrow> Inr () | e # es \<Rightarrow> Inl e),
            List.map_filter (key_cid w) (takeWhile (\<lambda>k. key_cid w k \<noteq> None) (iter_keys w)))"
proof -
  let ?w2 = "w\<lparr>viewers := viewers w + 1, rlock := rlock w + 1\<rparr>"
  let ?w3 = "unlockDB ?w2"
  have l: "lockDB (w\<lparr>viewers := viewers w + 1\<rparr>) = Some ?w2"
    using assms(2) by (simp add: lockDB_def)
  have o2: "isOpen ?w2" and o3: "isOpen ?w3"
    using assms(1) by (simp_all add: isOpen_def unlockDB_def)
  have c2: "iter_keys ?w2 = iter_keys w" "strip_prefix ?w2 = strip_prefix w"
    "key_cid ?w2 = key_cid w" "key_err ?w2 = key_err w"
    by (rule iteration_cong; simp)+
  have c3: "iter_keys ?w3 = iter_keys w" "strip_prefix ?w3 = strip_prefix w"
    "key_cid ?w3 = key_cid w"
    by (rule iteration_cong; simp add: unlockDB_def)+
  show "fst (AllKeysChan iter_ok w) =
           Inr (List.map_filter (key_cid w) (iter_keys w),
                map (strip_prefix w) (filter (\<lambda>k. key_cid w k = None) (iter_keys w)))"
    using assms(1) AllKeysChan_loop_quiet [OF o3, of 0 "iter_keys ?w3"]
    by (simp add: AllKeysChan_def access_def l Let_def c3)
  show "fst (ForEachKey iter_ok w (\<lambda>c. None)) =
           ((case List.map_filter (key_err w) (iter_keys w) of [] \<Rightarrow> Inr () | e # es \<Rightarrow> Inl e),
            List.map_filter (key_cid w) (takeWhile (\<lambda>k. key_cid w k \<noteq> None) (iter_keys w)))"
    using assms(1) ForEachKey_loop_quiet [OF o2, of 0 "iter_keys ?w2"]
    by (simp add: ForEachKey_def access_def l c2)
qed

text \<open>
  C10: on an open store, with nobody cancelling or closing meanwhile, the producer of
  \<open>AllKeysChan\<close> returns no error and sends the cid of every key that decodes, in key
  order, also of the keys after one that does not decode; the keys that do not decode
  are only logged. \<open>ForEachKey\<close> with a visitor that never fails returns the decoder's
  error of the first key that does not decode and has visited only the keys before it.
\<close>

theorem lazy_skips_sync_aborts:
  assumes "state w = stateOpen" and "moveState w \<noteq> moveStateLock"
  shows "fst (AllKeysChan iter_ok w) =
           Inr (List.map_filter (key_cid w) (iter_keys w),
                map (strip_prefix w) (filter (\<lambda>k. key_cid w k = None) (iter_keys w))) \<and>
         fst (ForEachKey iter_ok w (\<lambda>c. None)) =
           ((case List.map_filter (key_err w) (iter_keys w) of [] \<Rightarrow> Inr () | e # es \<Rightarrow> Inl e),
            List.map_filter (key_cid w) (takeWhile (\<lambda>k. key_cid w k \<noteq> None) (iter_keys w)))"
  using iteration_quiet [OF assms] by simp

lemma store_bad_keys: "iter_keys store_bad = [[65, 65], [66, 49], [67, 65]]"
  by code_simp

lemma store_bad_decodes:
  "key_cid store_bad [65, 65] = Some (CidV1 Raw [0])"
  "key_cid store_bad [66, 49] = None"
  "key_cid store_bad [67, 65] = Some (CidV1 Raw [16])"
  "key_err store_bad [65, 65] = None"
  "key_err store_bad [66, 49] = Some (ErrCorruptInput 1)"
  "key_err store_bad [67, 65] = None"
  "strip_prefix store_bad [66, 49] = [66, 49]"
  by code_simp+

theorem lazy_skips_sync_aborts_witness:
  "state store_bad = stateOpen \<and> moveState store_bad \<noteq> moveStateLock \<and>
   fst (AllKeysChan iter_ok store_bad) = Inr ([CidV1 Raw [0], CidV1 Raw [16]], [[66, 49]]) \<and>
   fst (ForEachKey iter_ok store_bad (\<lambda>c. None)) = (Inl (ErrCorruptInput 1), [CidV1 Raw [0]])"
proof -
  have s: "state store_bad = stateOpen" "moveState store_bad \<noteq> moveStateLock"
    by (simp_all add: store_bad_def store0_def)
  show ?thesis
    using lazy_skips_sync_aborts [OF s] s
    by (simp add: store_bad_keys store_bad_decodes map_filter_simps)
qed

section \<open>The keys of a store stay supported\<close>

text \<open>
  The store \<open>Open\<close> gives on an empty directory has supported keys only, and neither
  \<open>PutMany\<close> nor \<open>DeleteMany\<close> (whatever the engine answers) adds a key that does not
  decode to a supported multihash.
\<close>

lemma update_all:
  "list_all (\<lambda>(k, v). P k) al \<Longrightarrow> P k \<Longrightarrow> list_all (\<lambda>(k, v). P k) (AList.update k v al)"
  by (induction al) (auto simp: list_all_iff)

lemma delete_all:
  "list_all (\<lambda>(k, v). P k) al \<Longrightarrow> list_all (\<lambda>(k, v). P k) (AList.delete k al)"
  by (auto simp: list_all_iff AList.delete_eq)

lemma apply_batch_all:
  "list_all (\<lambda>(k, v). P k) al \<Longrightarrow> \<forall>k v. WSet k v \<in> set batch \<longrightarrow> P k \<Longrightarrow>
     list_all (\<lambda>(k, v). P k) (apply_batch batch al)"
proof (induction batch arbitrary: al)
  case Nil
  then show ?case by (simp add: apply_batch_def)
next
  case (Cons x xs)
  have "list_all (\<lambda>(k, v). P k) (apply_entry x al)"
    using Cons.prems by (cases x) (auto intro: update_all delete_all)
  moreover have "\<forall>k v. WSet k v \<in> set xs \<longrightarrow> P k"
    using Cons.prems(2) by simp
  ultimately show ?case
    using Cons.IH [of "apply_entry x al"] by (simp add: apply_batch_Cons)
qed

lemma set_loop_keys:
  "set_loop serr i blocks keys batch = (e, batch') \<Longrightarrow>
   \<forall>k v. WSet k v \<in> set batch \<longrightarrow> P k \<Longrightarrow> \<forall>k. Some k \<in> set keys \<longrightarrow> P k \<Longrightarrow>
     \<forall>k v. WSet k v \<in> set batch' \<longrightarrow> P k"
proof (induction serr i blocks keys batch rule: set_loop.induct)
  case (1 serr i blk blks k ks batch)
  show ?case
  proof (cases k)
    case None
    then show ?thesis using 1 by simp
  next
    case (Some key)
    show ?thesis
    proof (cases "key = [] \<or> serr i")
      case True
      then show ?thesis using 1(3,4) Some by (auto split: if_splits)
    next
      case False
      have "\<forall>k v. WSet k v \<in> set (batch @ [WSet key (RawData blk)]) \<longrightarrow> P k"
        using 1(4,5) Some by auto
      then show ?thesis
        using 1(2) [OF Some] False 1(3,5) Some by simp
    qed
  qed
qed simp_all

lemma view_loop_keys:
  "view_loop gerr d i blocks (map (\<lambda>b. f (Cid b)) blocks) = Inr (keys', jrnl) \<Longrightarrow>
   Some k \<in> set keys' \<Longrightarrow> \<exists>b \<in> set blocks. k = f (Cid b) \<and> supported (Hash (Cid b))"
proof (induction blocks arbitrary: i keys' jrnl)
  case Nil
  then show ?case by simp
next
  case (Cons b bs)
  let ?rest = "view_loop gerr d (Suc i) bs (map (\<lambda>b. f (Cid b)) bs)"
  obtain ks js where rest: "?rest = Inr (ks, js)"
    using Cons.prems(1) by (cases ?rest) (auto simp: Let_def split: sum.splits option.splits)
  have ih: "Some k \<in> set ks \<Longrightarrow> \<exists>b \<in> set bs. k = f (Cid b) \<and> supported (Hash (Cid b))"
    using Cons.IH [OF rest] .
  show ?case
  proof (cases "badgerGet (gerr i) d (f (Cid b))")
    case (Inl e)
    then show ?thesis using Cons.prems(1) by simp
  next
    case (Inr found)
    show ?thesis
    proof (cases found)
      case (Some v)
      then have "keys' = None # ks"
        using Cons.prems(1) Inr rest by simp
      then show ?thesis using Cons.prems(2) ih by auto
    next
      case None
      then have "supported (Hash (Cid b)) \<and> keys' = Some (f (Cid b)) # ks"
        using Cons.prems(1) Inr rest
        by (auto simp: Let_def supported_def split: sum.splits)
      then show ?thesis using Cons.prems(2) ih by auto
    qed
  qed
qed

lemma put_keeps:
  assumes "put io blocks keys jrnl d mhj = (e, d', mhj')"
    and "list_all (\<lambda>(k, v). P k) (kv d)" and "\<forall>k. Some k \<in> set keys \<longrightarrow> P k"
  shows "list_all (\<lambda>(k, v). P k) (kv d')"
proof -
  obtain e0 batch where sl: "set_loop (set_err io) 0 blocks keys [] = (e0, batch)"
    by (cases "set_loop (set_err io) 0 blocks keys []") auto
  have b: "\<forall>k v. WSet k v \<in> set batch \<longrightarrow> P k"
    using set_loop_keys [OF sl _ assms(3)] by simp
  then have t: "\<forall>k v. WSet k v \<in> set (take (committed io) batch) \<longrightarrow> P k"
    by (meson in_set_takeD)
  have "kv d' = apply_batch batch (kv d) \<or> kv d' = apply_batch (take (committed io) batch) (kv d)"
    using assms(1) sl
    by (auto simp: put_def batch_abort_def batch_Flush_def split: option.splits if_splits prod.splits)
  then show ?thesis
    using apply_batch_all [OF assms(2) b] apply_batch_all [OF assms(2) t] by auto
qed

lemma key_of_supported:
  assumes "prefix_ok w" and "supported (Hash c)"
  shows "case b32_decode (drop (prefixLen w) (storage_key w c)) of
           Inl e \<Rightarrow> False | Inr mh \<Rightarrow> supported mh"
  using assms by (simp add: storage_key_eq b32_roundtrip) (simp add: prefix_ok_def b32_roundtrip)

lemma PutMany_keeps_supported:
  assumes "prefix_ok w" and "kv_supported w"
  shows "kv_supported (snd (PutMany io w blocks)) \<and> prefix_ok (snd (PutMany io w blocks))"
proof (cases "state w = stateOpen \<and> lockDB w \<noteq> None")
  case False
  then have "db (snd (PutMany io w blocks)) = db w"
    "prefixLen (snd (PutMany io w blocks)) = prefixLen w"
    "prefix (snd (PutMany io w blocks)) = prefix w"
    "prefixing (snd (PutMany io w blocks)) = prefixing w"
    by (auto simp: PutMany_def guarded_def access_def lockDB_def split: if_splits)
  then show ?thesis
    using assms by (simp add: kv_supported_def prefix_ok_def)
next
  case True
  let ?P = "\<lambda>k. case b32_decode (drop (prefixLen w) k) of Inl e \<Rightarrow> False | Inr mh \<Rightarrow> supported mh"
  let ?ks = "map (\<lambda>b. storage_key w (Cid b)) blocks"
  let ?vl = "view_loop (view_err io) (db w) 0 blocks ?ks"
  let ?w' = "snd (PutMany io w blocks)"
  have c: "prefixLen ?w' = prefixLen w" "prefix ?w' = prefix w" "prefixing ?w' = prefixing w"
    using control_fields [OF PutMany_open(3) [of w io blocks]] True by simp_all
  have a: "list_all (\<lambda>(k, v). ?P k) (kv (db w))"
    using assms(2) by (simp add: kv_supported_def)
  have "list_all (\<lambda>(k, v). ?P k) (kv (db ?w'))"
  proof (cases ?vl)
    case (Inl e)
    have "stores ?w' = stores w"
      using PutMany_open(2) [of w io blocks] True Inl by simp
    then have "db ?w' = db w" by (simp add: stores_def)
    then show ?thesis using a by simp
  next
    case (Inr r)
    obtain keys' jrnl where r: "r = (keys', jrnl)" by (cases r) auto
    have g: "\<forall>k. Some k \<in> set keys' \<longrightarrow> ?P k"
    proof (intro allI impI)
      fix k assume "Some k \<in> set keys'"
      moreover have "?vl = Inr (keys', jrnl)" using Inr r by simp
      ultimately have "\<exists>b \<in> set blocks. k = storage_key w (Cid b) \<and> supported (Hash (Cid b))"
        by (rule view_loop_keys [where f = "storage_key w", rotated])
      then obtain b :: block where "k = storage_key w (Cid b)" "supported (Hash (Cid b))"
        by blast
      then show "?P k" using key_of_supported [OF assms(1)] by simp
    qed
    obtain e1 d1 j1 where p: "put (wb io) blocks keys' jrnl (db w) (mhJournal w) = (e1, d1, j1)"
      and d: "db (snd (put_both io blocks keys' jrnl w)) = d1"
      using put_both_cases [of io blocks keys' jrnl w] by blast
    have "stores ?w' = stores (snd (put_both io blocks keys' jrnl w))"
      using PutMany_open(2) [of w io blocks] True Inr r by simp
    then have "db ?w' = d1" using d by (simp add: stores_def)
    then show ?thesis using put_keeps [OF p a g] by simp
  qed
  then show ?thesis
    using assms(1) c by (simp add: kv_supported_def prefix_ok_def)
qed

lemma delete_loop_ops:
  "delete_loop serr w i cids tr batch = (e, tr', batch', w') \<Longrightarrow>
   \<forall>k v. WSet k v \<notin> set batch \<Longrightarrow> \<forall>k v. WSet k v \<notin> set batch'"
proof (induction cids arbitrary: w i tr batch)
  case Nil
  then show ?case by simp
next
  case (Cons c cs)
  show ?case
  proof (cases "storage_key w c = [] \<or> serr i")
    case True
    then show ?thesis
      using Cons.prems by (auto simp: PooledStorageKey_split Let_def split: if_splits)
  next
    case False
    then have "delete_loop serr (pool_Get w) (Suc i) cs (tr @ [storage_key w c])
                 (batch @ [WDelete (storage_key w c)]) = (e, tr', batch', w')"
      using Cons.prems by (simp add: PooledStorageKey_split Let_def)
    then show ?thesis
      using Cons.IH Cons.prems(2) by simp
  qed
qed

lemma DeleteMany_keeps_supported:
  assumes "kv_supported w"
  shows "kv_supported (snd (DeleteMany io w cids))"
proof (cases "state w = stateOpen \<and> lockDB w \<noteq> None")
  case False
  then have "db (snd (DeleteMany io w cids)) = db w"
    "prefixLen (snd (DeleteMany io w cids)) = prefixLen w"
    by (auto simp: DeleteMany_def guarded_def access_def lockDB_def split: if_splits)
  then show ?thesis
    using assms by (simp add: kv_supported_def)
next
  case True
  let ?P = "\<lambda>k. case b32_decode (drop (prefixLen w) k) of Inl e \<Rightarrow> False | Inr mh \<Rightarrow> supported mh"
  let ?w2 = "w\<lparr>viewers := viewers w + 1, rlock := rlock w + 1\<rparr>"
  let ?w' = "snd (DeleteMany io w cids)"
  have l: "lockDB (w\<lparr>viewers := viewers w + 1\<rparr>) = Some ?w2"
    using True by (auto simp: lockDB_def split: if_splits)
  obtain e tr' batch' w3 where
    dl: "delete_loop (set_err io) ?w2 0 cids [] [] = (e, tr', batch', w3)"
    by (cases "delete_loop (set_err io) ?w2 0 cids [] []") auto
  have s: "stores w3 = stores ?w2" "control w3 = control ?w2"
    using delete_loop_result [OF dl] by simp_all
  have f: "db w3 = db w" "prefixLen w3 = prefixLen w"
    using s by (simp_all add: stores_def control_def)
  have a: "list_all (\<lambda>(k, v). ?P k) (kv (db w))"
    using assms by (simp add: kv_supported_def)
  have b: "\<forall>k v. WSet k v \<in> set batch' \<longrightarrow> ?P k"
    using delete_loop_ops [OF dl] by simp
  then have t: "\<forall>k v. WSet k v \<in> set (take (committed io) batch') \<longrightarrow> ?P k"
    by (meson in_set_takeD)
  have r: "prefixLen ?w' = prefixLen w \<and>
           (kv (db ?w') = apply_batch batch' (kv (db w)) \<or>
            kv (db ?w') = apply_batch (take (committed io) batch') (kv (db w)))"
    using True f
    by (cases e)
       (simp_all add: DeleteMany_def guarded_def access_def l dl return_keys_def batch_abort_def
          batch_Flush_def unlockDB_def viewers_Done_def)
  show ?thesis
    using r apply_batch_all [OF a b] apply_batch_all [OF a t]
    by (auto simp: kv_supported_def)
qed

end
